theory Spec2Isabelle
  imports Complex_Main
begin

section \<open>Strings\<close>

text \<open>
  The supervisor decides which processes and windows belong to the browser by
  case-insensitive substring tests (\<^verbatim>\<open>'chrome' in name.lower()\<close>). Strings are
  ASCII character lists; \<open>lower\<close> maps the 26 capital letters and leaves every other
  character alone, and \<open>str_in sub s\<close> is Python's \<^verbatim>\<open>sub in s\<close>.
\<close>

definition lower_char :: "char \<Rightarrow> char" where
  "lower_char c =
     (case map_of (zip ''ABCDEFGHIJKLMNOPQRSTUVWXYZ'' ''abcdefghijklmnopqrstuvwxyz'') c of
        Some d \<Rightarrow> d
      | None \<Rightarrow> c)"

definition lower :: "string \<Rightarrow> string" where
  "lower s = map lower_char s"

fun startswith :: "string \<Rightarrow> string \<Rightarrow> bool" where
  "startswith [] s = True"
| "startswith (c # cs) [] = False"
| "startswith (c # cs) (d # ds) = (c = d \<and> startswith cs ds)"

fun str_in :: "string \<Rightarrow> string \<Rightarrow> bool" where
  "str_in sub [] = (sub = [])"
| "str_in sub (c # cs) = (startswith sub (c # cs) \<or> str_in sub cs)"

text \<open>\<^verbatim>\<open>' '.join(parts)\<close>\<close>

fun str_join :: "string \<Rightarrow> string list \<Rightarrow> string" where
  "str_join sep [] = []"
| "str_join sep [x] = x"
| "str_join sep (x # y # ys) = x @ sep @ str_join sep (y # ys)"

text \<open>\<^verbatim>\<open>value or ''\<close> and \<^verbatim>\<open>value or []\<close> for a value that psutil may report as None.\<close>

definition or_empty :: "string option \<Rightarrow> string" where
  "or_empty v = (case v of None \<Rightarrow> [] | Some x \<Rightarrow> x)"

definition or_nil :: "string list option \<Rightarrow> string list" where
  "or_nil v = (case v of None \<Rightarrow> [] | Some xs \<Rightarrow> xs)"

section \<open>Data model\<close>

text \<open>
  An entry of \<^verbatim>\<open>psutil.process_iter(['pid', 'name', 'exe', 'cmdline'])\<close>. A field that
  psutil cannot read is None.
\<close>

record proc_info =
  pi_pid :: nat
  pi_name :: "string option"
  pi_exe :: "string option"
  pi_cmdline :: "string list option"

text \<open>
  A top-level window as \<^verbatim>\<open>win32gui.EnumWindows\<close> hands it to a callback. \<open>ow_raises\<close>
  marks a handle on which the win32 queries raise (the window went away meanwhile).
\<close>

record os_window =
  ow_hwnd :: nat
  ow_class :: string
  ow_visible :: bool
  ow_enabled :: bool
  ow_pid :: nat
  ow_title :: string
  ow_raises :: bool

text \<open>An element of \<^verbatim>\<open>self.browser_processes\<close>: a Popen object or the placeholder class.\<close>

datatype proc_handle = PopenHandle nat | DummyProcess

text \<open>An element of \<^verbatim>\<open>self.browser_configs\<close>.\<close>

record browser_config =
  cfg_name :: string
  cfg_urls :: "string list"

text \<open>An element of \<^verbatim>\<open>self.browser_profiles\<close> (one dictionary per laid-out window).\<close>

record launched_window =
  lw_pid :: nat
  lw_hwnd :: nat
  lw_window_idx :: nat
  lw_profile_idx :: nat
  lw_url :: string
  lw_start_time :: real

datatype launch_error = FileNotFoundError | OSError

text \<open>The exception that ends the timer thread when a date leaves the calendar.\<close>

datatype thread_error = OverflowError

text \<open>
  The reason strings passed to \<^verbatim>\<open>force_restart\<close> are Chinese literals in the source:
  "CPU usage too high", "memory usage too high", "scheduled restart", and the default
  "resource usage too high".
\<close>

datatype reason = CpuTooHigh | MemoryTooHigh | ScheduledRestart | ResourceTooHigh

datatype swp_flag = SWP_SHOWWINDOW | SWP_NOZORDER | SWP_NOACTIVATE | SWP_NOSIZE

datatype insert_after = HWND_NOTOPMOST

text \<open>
  What the supervisor does to the outside world and what it logs, in program order.
  Every entry of a \<open>log\<close> carries the wall-clock time at which it was produced.
\<close>

datatype event =
    ForceRestartRequested reason
  | StopAll
  | SkipCleanup
  | Terminate nat string
  | Sleep real
  | StartAll nat
  | SkipEmptyGroup nat
  | Spawn string nat
  | SpawnFailed string launch_error
  | EnumWindowsCall
  | LocateAttempt nat nat nat
  | SetWindowPos nat insert_after int int int int "swp_flag list"
  | LayoutSkipped nat nat
  | WindowDump nat string nat string
  | LayoutFailed
  | ImportFailed
  | ResourceSample real real
  | InStartupProtection
  | CpuHigh
  | MemoryHigh
  | AllExited
  | ScheduledRestartDue

type_synonym log = "(real \<times> event) list"

text \<open>
  The fields of \<^verbatim>\<open>self\<close> that the supervision engine reads and writes, together with
  the wall clock \<open>clock\<close> (\<^verbatim>\<open>datetime.now()\<close>, in seconds), which \<^verbatim>\<open>time.sleep\<close> advances.
\<close>

record sys =
  restart_seconds :: int
  max_cpu_percent :: int
  max_memory_percent :: int
  monitor_interval :: int
  browser_path :: "string option"
  browser_processes :: "proc_handle list"
  browser_profiles :: "launched_window list"
  browser_configs :: "browser_config list"
  last_start_time :: "real option"
  window_offset_x :: int
  window_offset_y :: int
  STARTUP_PROTECTION_PERIOD :: real
  is_running :: bool
  clock :: real

text \<open>
  The operating system, as the supervisor observes it: its own process id, the process
  table and the window registry at a given time, the outcome of spawning a command line,
  whether repositioning a window handle raises, and whether the win32 modules import.
  \<open>process_iter e t\<close> is the list of the processes that the enumeration at time \<open>t\<close>
  yields; an enumeration that raises part-way yields the processes before the failure,
  and the handlers of the source then only log. A \<open>Terminate\<close> event is the call of
  \<^verbatim>\<open>proc.terminate()\<close>, whether or not the process is still there to receive it.
  \<open>clock_origin\<close> places the wall clock in the calendar: it is the number of seconds from
  0001-01-01 00:00:00, the least \<^verbatim>\<open>datetime\<close>, to the instant at which the clock reads 0.
\<close>

record env =
  clock_origin :: real
  getpid :: nat
  process_iter :: "real \<Rightarrow> proc_info list"
  enum_windows :: "real \<Rightarrow> os_window list"
  popen :: "real \<Rightarrow> string list \<Rightarrow> launch_error + nat"
  set_window_pos_raises :: "real \<Rightarrow> nat \<Rightarrow> bool"
  win32gui_importable :: bool

section \<open>Constants\<close>

definition SCHEDULE_CHECK_INTERVAL :: real where "SCHEDULE_CHECK_INTERVAL = 60"
definition START_DELAY :: real where "START_DELAY = 3.5"
definition STOP_DELAY :: real where "STOP_DELAY = 15"

section \<open>Sleeping and truthiness\<close>

definition sleep :: "real \<Rightarrow> sys \<Rightarrow> log \<times> sys" where
  "sleep d s = ([(clock s, Sleep d)], s\<lparr>clock := clock s + d\<rparr>)"

text \<open>\<^verbatim>\<open>if self.browser_path\<close>: None and the empty string are both false.\<close>

definition path_set :: "string option \<Rightarrow> bool" where
  "path_set p = (case p of None \<Rightarrow> False | Some x \<Rightarrow> x \<noteq> [])"

section \<open>Process health monitor and termination\<close>

text \<open>
  The body of the loop of \<^verbatim>\<open>check_browser_processes\<close>: does this process count as a
  live instance of the browser that \<^verbatim>\<open>self.browser_path\<close> selects?
\<close>

definition is_selected_browser :: "string \<Rightarrow> proc_info \<Rightarrow> bool" where
  "is_selected_browser path p =
     (let name = or_empty (pi_name p);
          exe = or_empty (pi_exe p);
          browser_path_lower = lower path
      in if str_in ''chrome'' browser_path_lower then
           str_in ''chrome.exe'' (lower name) \<and> str_in ''chrome'' (lower exe)
         else if str_in ''msedge'' browser_path_lower then
           str_in ''msedge.exe'' (lower name) \<and> str_in ''msedge'' (lower exe)
         else False)"

text \<open>The \<^verbatim>\<open>for ... break\<close> loop that computes \<^verbatim>\<open>browser_running\<close>.\<close>

fun browser_running :: "string \<Rightarrow> proc_info list \<Rightarrow> bool" where
  "browser_running path [] = False"
| "browser_running path (p # ps) =
     (if is_selected_browser path p then True else browser_running path ps)"

definition check_browser_processes :: "env \<Rightarrow> sys \<Rightarrow> sys" where
  "check_browser_processes e s =
     (if \<not> path_set (browser_path s) then s\<lparr>browser_processes := []\<rparr>
      else if \<not> browser_running (the (browser_path s)) (process_iter e (clock s)) then
        s\<lparr>browser_processes := []\<rparr>
      else if browser_processes s = [] then s\<lparr>browser_processes := [DummyProcess]\<rparr>
      else s)"

text \<open>
  The body of the loop of \<^verbatim>\<open>cleanup_chrome_processes\<close>: \<open>Some label\<close> when the process
  is terminated (the label is the \<^verbatim>\<open>browser_type\<close> of the log line), \<open>None\<close> when it is
  left alone.
\<close>

definition cleanup_target :: "string \<Rightarrow> nat \<Rightarrow> proc_info \<Rightarrow> string option" where
  "cleanup_target path self_pid p =
     (if pi_pid p = self_pid then None
      else
        let name = or_empty (pi_name p) in
        if str_in ''msedgewebview2.exe'' (lower name) then None
        else
          let exe = or_empty (pi_exe p);
              cmdline = str_join '' '' (or_nil (pi_cmdline p));
              browser_path_lower = lower path
          in if str_in ''chrome'' browser_path_lower then
               (if str_in ''chrome'' (lower name) \<and> \<not> str_in ''steam'' (lower name) then
                  if str_in ''chrome'' (lower exe) \<or> str_in ''chrome'' (lower cmdline) then
                    if \<not> str_in ''steam'' (lower exe) \<and> \<not> str_in ''steam'' (lower cmdline)
                    then Some ''Chrome'' else None
                  else None
                else None)
             else if str_in ''msedge'' browser_path_lower then
               (if str_in ''msedge.exe'' (lower name) then
                  if str_in ''msedge'' (lower exe) \<or> str_in ''edge'' (lower exe)
                     \<or> str_in ''msedge'' (lower cmdline) then
                    if \<not> str_in ''steam'' (lower exe) \<and> \<not> str_in ''steam'' (lower cmdline)
                    then Some ''Edge'' else None
                  else None
                else None)
             else None)"

fun cleanup_loop :: "string \<Rightarrow> nat \<Rightarrow> real \<Rightarrow> proc_info list \<Rightarrow> log" where
  "cleanup_loop path self_pid t [] = []"
| "cleanup_loop path self_pid t (p # ps) =
     (case cleanup_target path self_pid p of
        Some label \<Rightarrow> (t, Terminate (pi_pid p) label) # cleanup_loop path self_pid t ps
      | None \<Rightarrow> cleanup_loop path self_pid t ps)"

definition cleanup_chrome_processes :: "env \<Rightarrow> sys \<Rightarrow> log" where
  "cleanup_chrome_processes e s =
     (if \<not> path_set (browser_path s) then [(clock s, SkipCleanup)]
      else cleanup_loop (the (browser_path s)) (getpid e) (clock s) (process_iter e (clock s)))"

definition stop_all_browsers :: "env \<Rightarrow> sys \<Rightarrow> log \<times> sys" where
  "stop_all_browsers e s =
     ((clock s, StopAll) # cleanup_chrome_processes e s,
      s\<lparr>browser_profiles := [], browser_processes := []\<rparr>)"

section \<open>Launch controller, window locator and layout engine\<close>

definition create_browser_args :: "sys \<Rightarrow> string \<Rightarrow> launch_error + string list" where
  "create_browser_args s url =
     (if \<not> path_set (browser_path s) then Inl FileNotFoundError
      else Inr [the (browser_path s), ''--new-window'', url])"

text \<open>
  The spawn loop of \<^verbatim>\<open>open_urls_in_tabs\<close>, from window index \<open>i\<close> on. It returns the log,
  the list \<^verbatim>\<open>started_processes\<close> of (window index, pid, url) and the new state. An
  exception of \<^verbatim>\<open>create_browser_args\<close> or of \<^verbatim>\<open>subprocess.Popen\<close> is caught inside the
  loop body, logged, and the loop goes on with the next URL.
\<close>

fun launch_urls :: "env \<Rightarrow> nat \<Rightarrow> string list \<Rightarrow> sys \<Rightarrow> log \<times> (nat \<times> nat \<times> string) list \<times> sys" where
  "launch_urls e i [] s = ([], [], s)"
| "launch_urls e i (u # us) s =
     (case create_browser_args s u of
        Inl err \<Rightarrow>
          (case launch_urls e (Suc i) us s of
             (l, started, s') \<Rightarrow> ((clock s, SpawnFailed u err) # l, started, s'))
      | Inr args \<Rightarrow>
          (case popen e (clock s) args of
             Inl err \<Rightarrow>
               (case launch_urls e (Suc i) us s of
                  (l, started, s') \<Rightarrow> ((clock s, SpawnFailed u err) # l, started, s'))
           | Inr pid \<Rightarrow>
               (case sleep START_DELAY
                       (s\<lparr>browser_processes := browser_processes s @ [PopenHandle pid]\<rparr>) of
                  (l1, s1) \<Rightarrow>
                    (case launch_urls e (Suc i) us s1 of
                       (l, started, s') \<Rightarrow>
                         ((clock s, Spawn u pid) # l1 @ l, (i, pid, u) # started, s')))))"

definition is_browser_class :: "string \<Rightarrow> bool" where
  "is_browser_class class_name =
     (str_in ''Chrome_WidgetWin'' class_name \<or> str_in ''Edge_WidgetWin'' class_name)"

text \<open>The callback \<^verbatim>\<open>find_our_browser_windows\<close>, run over one enumeration.\<close>

definition our_browser_window :: "os_window \<Rightarrow> bool" where
  "our_browser_window w =
     (\<not> ow_raises w \<and> ow_visible w \<and> ow_enabled w \<and> is_browser_class (ow_class w))"

definition find_our_browser_windows :: "os_window list \<Rightarrow> (nat \<times> string \<times> nat) list" where
  "find_our_browser_windows ws =
     map (\<lambda>w. (ow_hwnd w, ow_class w, ow_pid w)) (filter our_browser_window ws)"

definition max_attempts :: nat where "max_attempts = 10"

text \<open>
  The retry loop. \<open>attempt\<close> and \<open>found_windows\<close> are the loop variables of the source;
  when the loop ends without success the result is the list of the last attempt.
\<close>

function locate_windows ::
  "env \<Rightarrow> nat \<Rightarrow> nat \<Rightarrow> (nat \<times> string \<times> nat) list \<Rightarrow> sys
     \<Rightarrow> log \<times> (nat \<times> string \<times> nat) list \<times> sys" where
  "locate_windows e attempt required_windows found_windows s =
     (if attempt < max_attempts then
        (let found = find_our_browser_windows (enum_windows e (clock s));
             l0 = [(clock s, EnumWindowsCall),
                   (clock s, LocateAttempt (attempt + 1) (length found) required_windows)]
         in if length found \<ge> required_windows then (l0, found, s)
            else
              (case sleep 3 s of
                 (l1, s1) \<Rightarrow>
                   (case locate_windows e (attempt + 1) required_windows found s1 of
                      (l, found', s') \<Rightarrow> (l0 @ l1 @ l, found', s'))))
      else ([], found_windows, s))"
  by pat_completeness auto
termination
  by (relation "measure (\<lambda>(e, attempt, r, f, s). max_attempts - attempt)") auto

declare locate_windows.simps [simp del]

text \<open>
  The positioning loop over the indices \<^verbatim>\<open>range(required_windows)\<close>. The Boolean of the
  result says that \<^verbatim>\<open>SetWindowPos\<close> raised: the exception leaves the loop. The caller
  guarantees \<open>idx < length found\<close> and \<open>idx < length started\<close>.
\<close>

fun layout_loop ::
  "env \<Rightarrow> nat \<Rightarrow> (nat \<times> string \<times> nat) list \<Rightarrow> (nat \<times> nat \<times> string) list \<Rightarrow> nat list \<Rightarrow> sys
     \<Rightarrow> log \<times> bool \<times> sys" where
  "layout_loop e profile_idx found started [] s = ([], False, s)"
| "layout_loop e profile_idx found started (idx # rest) s =
     (let hwnd = fst (found ! idx);
          pos_x = int idx * window_offset_x s;
          pos_y = int idx * window_offset_y s;
          call = (clock s, SetWindowPos hwnd HWND_NOTOPMOST pos_x pos_y 0 0
                             [SWP_SHOWWINDOW, SWP_NOZORDER, SWP_NOACTIVATE, SWP_NOSIZE])
      in if set_window_pos_raises e (clock s) hwnd then ([call], True, s)
         else
           (case layout_loop e profile_idx found started rest
                   (s\<lparr>browser_profiles := browser_profiles s @
                        [\<lparr>lw_pid = snd (snd (found ! idx)), lw_hwnd = hwnd,
                          lw_window_idx = idx, lw_profile_idx = profile_idx,
                          lw_url = snd (snd (started ! idx)),
                          lw_start_time = clock s\<rparr>]\<rparr>) of
              (l, raised, s') \<Rightarrow> (call # l, raised, s')))"

text \<open>The callback \<^verbatim>\<open>find_all_browser_windows\<close> and the log lines written from its result.\<close>

definition all_browser_window :: "os_window \<Rightarrow> bool" where
  "all_browser_window w = (\<not> ow_raises w \<and> ow_visible w \<and> is_browser_class (ow_class w))"

definition window_dump :: "env \<Rightarrow> sys \<Rightarrow> log" where
  "window_dump e s =
     (clock s, EnumWindowsCall) #
     map (\<lambda>w. (clock s, WindowDump (ow_hwnd w) (ow_class w) (ow_pid w) (take 30 (ow_title w))))
       (filter all_browser_window (enum_windows e (clock s)))"

text \<open>
  \<^verbatim>\<open>open_urls_in_tabs\<close>. The platform test is always true: the constructor leaves the
  program on any platform other than win32.
\<close>

definition open_urls_in_tabs :: "env \<Rightarrow> nat \<Rightarrow> string list \<Rightarrow> sys \<Rightarrow> log \<times> sys" where
  "open_urls_in_tabs e profile_idx urls s =
     (if urls = [] then ([(clock s, SkipEmptyGroup profile_idx)], s)
      else
        (case launch_urls e 0 urls s of
           (l1, started, s1) \<Rightarrow>
             if \<not> win32gui_importable e then (l1 @ [(clock s1, ImportFailed)], s1)
             else
               (case locate_windows e 0 (length started) [] s1 of
                  (l2, found, s2) \<Rightarrow>
                    if length found \<ge> length started then
                      (case layout_loop e profile_idx found started [0..<length started] s2 of
                         (l3, raised, s3) \<Rightarrow>
                           if raised then (l1 @ l2 @ l3 @ [(clock s3, LayoutFailed)], s3)
                           else (l1 @ l2 @ l3 @ window_dump e s3, s3))
                    else
                      (l1 @ l2 @ [(clock s2, LayoutSkipped (length found) (length started))]
                         @ window_dump e s2, s2))))"

fun start_groups :: "env \<Rightarrow> nat \<Rightarrow> browser_config list \<Rightarrow> sys \<Rightarrow> log \<times> sys" where
  "start_groups e idx [] s = ([], s)"
| "start_groups e idx (config # rest) s =
     (case open_urls_in_tabs e (idx + 1) (cfg_urls config) s of
        (l1, s1) \<Rightarrow>
          (case sleep START_DELAY s1 of
             (l2, s2) \<Rightarrow>
               (case start_groups e (Suc idx) rest s2 of
                  (l3, s3) \<Rightarrow> (l1 @ l2 @ l3, s3))))"

definition start_all_browsers :: "env \<Rightarrow> sys \<Rightarrow> log \<times> sys" where
  "start_all_browsers e s =
     (case start_groups e 0 (browser_configs s)
             (s\<lparr>last_start_time := Some (clock s), browser_processes := [],
                browser_profiles := []\<rparr>) of
        (l, s') \<Rightarrow> ((clock s, StartAll (length (browser_configs s))) # l, s'))"

section \<open>Restart, resource monitor and scheduled restart\<close>

definition force_restart :: "env \<Rightarrow> reason \<Rightarrow> sys \<Rightarrow> log \<times> sys" where
  "force_restart e r s =
     (case stop_all_browsers e s of
        (l1, s1) \<Rightarrow>
          (case sleep STOP_DELAY s1 of
             (l2, s2) \<Rightarrow>
               (case start_all_browsers e s2 of
                  (l3, s3) \<Rightarrow> ((clock s, ForceRestartRequested r) # l1 @ l2 @ l3, s3))))"

text \<open>Lines 442 to 448: is the fleet inside its startup protection period?\<close>

definition in_startup_protection :: "sys \<Rightarrow> bool" where
  "in_startup_protection s =
     (case last_start_time s of
        None \<Rightarrow> False
      | Some t0 \<Rightarrow> clock s - t0 < STARTUP_PROTECTION_PERIOD s)"

definition cpu_check :: "env \<Rightarrow> real \<Rightarrow> sys \<Rightarrow> log \<times> sys" where
  "cpu_check e cpu_percent s =
     (if \<not> in_startup_protection s \<and> cpu_percent > real_of_int (max_cpu_percent s) then
        (case force_restart e CpuTooHigh s of (l, s') \<Rightarrow> ((clock s, CpuHigh) # l, s'))
      else ([], s))"

definition memory_check :: "env \<Rightarrow> real \<Rightarrow> sys \<Rightarrow> log \<times> sys" where
  "memory_check e memory_percent s =
     (if memory_percent > real_of_int (max_memory_percent s) then
        (case force_restart e MemoryTooHigh s of (l, s') \<Rightarrow> ((clock s, MemoryHigh) # l, s'))
      else ([], s))"

text \<open>Lines 462 to 470: the recovery after all browser processes have gone.\<close>

definition health_check :: "env \<Rightarrow> sys \<Rightarrow> log \<times> sys" where
  "health_check e s =
     (if browser_processes s = [] \<and> browser_configs s \<noteq> [] then
        (case stop_all_browsers e s of
           (l1, s1) \<Rightarrow>
             (case sleep 5 s1 of
                (l2, s2) \<Rightarrow>
                  (case start_all_browsers e s2 of
                     (l3, s3) \<Rightarrow> ((clock s, AllExited) # l1 @ l2 @ l3, s3))))
      else ([], s))"

text \<open>
  One pass through the \<^verbatim>\<open>try\<close> block of \<^verbatim>\<open>monitor_resources\<close>, without the final sleep,
  for the samples \<open>cpu_percent\<close> and \<open>memory_percent\<close> that psutil returned.
  \<^verbatim>\<open>psutil.cpu_percent(interval=1)\<close> blocks for one second.
\<close>

definition monitor_body :: "env \<Rightarrow> real \<Rightarrow> real \<Rightarrow> sys \<Rightarrow> log \<times> sys" where
  "monitor_body e cpu_percent memory_percent s0 =
     (let s = s0\<lparr>clock := clock s0 + 1\<rparr>;
          l0 = (clock s, ResourceSample cpu_percent memory_percent) #
               (if in_startup_protection s then [(clock s, InStartupProtection)] else [])
      in case cpu_check e cpu_percent s of
           (l1, s1) \<Rightarrow>
             (case memory_check e memory_percent s1 of
                (l2, s2) \<Rightarrow>
                  (case health_check e (check_browser_processes e s2) of
                     (l3, s3) \<Rightarrow> (l0 @ l1 @ l2 @ l3, s3))))"

text \<open>
  \<^verbatim>\<open>datetime.now() + timedelta(seconds=seconds)\<close> for the clock value \<open>t\<close> of
  \<^verbatim>\<open>datetime.now()\<close>. \<^verbatim>\<open>timedelta\<close> raises \<^verbatim>\<open>OverflowError\<close> when the number of days
  (the floor of \<open>seconds / 86400\<close>) exceeds 999999999 in magnitude, and the addition raises
  it when the result is before 0001-01-01 or after 9999-12-31, the day number 3652059.
  \<open>None\<close> is the raise.
\<close>

definition MAX_DELTA_DAYS :: int where "MAX_DELTA_DAYS = 999999999"

definition DATETIME_RANGE :: real where "DATETIME_RANGE = 3652059 * 86400"

definition datetime_add :: "env \<Rightarrow> real \<Rightarrow> int \<Rightarrow> real option" where
  "datetime_add e t seconds =
     (if \<bar>seconds div 86400\<bar> > MAX_DELTA_DAYS then None
      else if clock_origin e + (t + real_of_int seconds) < 0
              \<or> DATETIME_RANGE \<le> clock_origin e + (t + real_of_int seconds) then None
      else Some (t + real_of_int seconds))"

text \<open>
  The loop of \<^verbatim>\<open>scheduled_restart\<close> with its variable \<^verbatim>\<open>next_restart\<close>. The loop runs
  until another thread clears \<^verbatim>\<open>is_running\<close>; \<open>n\<close> bounds the number of iterations
  that are observed. The second component of the result is the deadline in force at the
  end, or the exception that was raised when a new deadline was computed: nothing in
  \<^verbatim>\<open>scheduled_restart\<close> catches it, so it ends the thread.
\<close>

fun scheduled_loop ::
  "env \<Rightarrow> nat \<Rightarrow> real \<Rightarrow> sys \<Rightarrow> log \<times> (thread_error + real) \<times> sys" where
  "scheduled_loop e 0 next_restart s = ([], Inr next_restart, s)"
| "scheduled_loop e (Suc n) next_restart s =
     (if \<not> is_running s then ([], Inr next_restart, s)
      else if clock s \<ge> next_restart then
        (case force_restart e ScheduledRestart s of
           (l1, s1) \<Rightarrow>
             (case datetime_add e (clock s1) (restart_seconds s1) of
                None \<Rightarrow> ((clock s, ScheduledRestartDue) # l1, Inl OverflowError, s1)
              | Some next_restart' \<Rightarrow>
                  (case sleep SCHEDULE_CHECK_INTERVAL s1 of
                     (l2, s2) \<Rightarrow>
                       (case scheduled_loop e n next_restart' s2 of
                          (l3, nr, s3) \<Rightarrow>
                            ((clock s, ScheduledRestartDue) # l1 @ l2 @ l3, nr, s3)))))
      else
        (case sleep SCHEDULE_CHECK_INTERVAL s of
           (l2, s2) \<Rightarrow>
             (case scheduled_loop e n next_restart s2 of
                (l3, nr, s3) \<Rightarrow> (l2 @ l3, nr, s3))))"

definition scheduled_restart ::
  "env \<Rightarrow> nat \<Rightarrow> sys \<Rightarrow> log \<times> (thread_error + real) \<times> sys" where
  "scheduled_restart e n s =
     (case datetime_add e (clock s) (restart_seconds s) of
        None \<Rightarrow> ([], Inl OverflowError, s)
      | Some next_restart \<Rightarrow> scheduled_loop e n next_restart s)"

text \<open>
  \<^verbatim>\<open>run\<close>, as far as the scheduled restart is concerned: the fleet is started, then the
  timer thread enters its loop.
\<close>

definition run_scheduled ::
  "env \<Rightarrow> nat \<Rightarrow> sys \<Rightarrow> log \<times> (thread_error + real) \<times> sys" where
  "run_scheduled e n s =
     (case start_all_browsers e (s\<lparr>is_running := True\<rparr>) of
        (l1, s1) \<Rightarrow>
          (case scheduled_restart e n s1 of
             (l2, nr, s2) \<Rightarrow> (l1 @ l2, nr, s2)))"

section \<open>Observing a log\<close>

text \<open>The events that starting the fleet can produce: pacing and retry delays, spawns,
  window enumeration, positioning and the messages around them.\<close>

fun launch_event :: "event \<Rightarrow> bool" where
  "launch_event (Sleep d) = (d = START_DELAY \<or> d = 3)"
| "launch_event (SkipEmptyGroup n) = True"
| "launch_event (Spawn u p) = True"
| "launch_event (SpawnFailed u err) = True"
| "launch_event EnumWindowsCall = True"
| "launch_event (LocateAttempt a f r) = True"
| "launch_event (SetWindowPos h ia x y cx cy fl) = True"
| "launch_event (LayoutSkipped f r) = True"
| "launch_event (WindowDump h c p t) = True"
| "launch_event LayoutFailed = True"
| "launch_event ImportFailed = True"
| "launch_event _ = False"

definition launch_log :: "log \<Rightarrow> bool" where
  "launch_log l = list_all (\<lambda>x. launch_event (snd x)) l"

definition evolves :: "sys \<Rightarrow> sys \<Rightarrow> bool" where
  "evolves s s' =
     (clock s \<le> clock s' \<and> is_running s' = is_running s
      \<and> restart_seconds s' = restart_seconds s
      \<and> max_cpu_percent s' = max_cpu_percent s
      \<and> max_memory_percent s' = max_memory_percent s
      \<and> monitor_interval s' = monitor_interval s
      \<and> browser_path s' = browser_path s
      \<and> browser_configs s' = browser_configs s
      \<and> window_offset_x s' = window_offset_x s
      \<and> window_offset_y s' = window_offset_y s
      \<and> STARTUP_PROTECTION_PERIOD s' = STARTUP_PROTECTION_PERIOD s)"

text \<open>The restart requests of a log, and the three phases of a forced restart.\<close>

fun is_request :: "event \<Rightarrow> bool" where
  "is_request (ForceRestartRequested r) = True"
| "is_request _ = False"

definition requests :: "log \<Rightarrow> log" where
  "requests l = filter (\<lambda>x. is_request (snd x)) l"

fun is_phase :: "event \<Rightarrow> bool" where
  "is_phase StopAll = True"
| "is_phase (Sleep d) = (d = STOP_DELAY)"
| "is_phase (StartAll n) = True"
| "is_phase _ = False"

definition phases :: "log \<Rightarrow> event list" where
  "phases l = filter is_phase (map snd l)"

text \<open>Spawns, window moves and window enumerations in a log.\<close>

fun is_spawn :: "event \<Rightarrow> bool" where
  "is_spawn (Spawn u p) = True"
| "is_spawn _ = False"



text \<open>The times at which the timer requested a scheduled restart.\<close>

definition fires :: "log \<Rightarrow> real list" where
  "fires l = map fst (filter (\<lambda>x. snd x = ForceRestartRequested ScheduledRestart) l)"

section \<open>Example configurations\<close>

text \<open>
  The state that the constructor builds from its default arguments once it has resolved
  the browser path (the name of the default group is a Chinese literal in the source),
  and an operating system whose process table and window registry do not change, where
  every spawn succeeds with pid 1000 and no call raises; its clock reads 0 at
  2026-01-01 00:00:00 (day number 739617). Paths are written with forward slashes; the
  tests of the source look at substrings only.
\<close>

definition default_sys :: "string \<Rightarrow> sys" where
  "default_sys path =
     \<lparr>restart_seconds = 3600, max_cpu_percent = 80, max_memory_percent = 85,
      monitor_interval = 60, browser_path = Some path, browser_processes = [],
      browser_profiles = [],
      browser_configs =
        [\<lparr>cfg_name = ''group1'',
          cfg_urls = [''https://www.4399.com'', ''https://www.acfun.cn'',
                      ''https://live.bilibili.com'']\<rparr>],
      last_start_time = None, window_offset_x = 120, window_offset_y = 75,
      STARTUP_PROTECTION_PERIOD = 90, is_running = False, clock = 0\<rparr>"

definition static_env :: "proc_info list \<Rightarrow> os_window list \<Rightarrow> env" where
  "static_env procs wins =
     \<lparr>clock_origin = 63902822400, getpid = 1, process_iter = (\<lambda>t. procs),
      enum_windows = (\<lambda>t. wins),
      popen = (\<lambda>t args. Inr 1000), set_window_pos_raises = (\<lambda>t h. False),
      win32gui_importable = True\<rparr>"

definition chrome_path :: string where
  "chrome_path = ''C:/Program Files/Google/Chrome/Application/chrome.exe''"

definition chrome_proc :: proc_info where
  "chrome_proc =
     \<lparr>pi_pid = 77, pi_name = Some ''chrome.exe'', pi_exe = Some chrome_path,
      pi_cmdline = Some [chrome_path, ''--new-window'']\<rparr>"

text \<open>A custom browser path that names neither Chrome nor Edge, and a process of it.\<close>

definition qq_path :: string where
  "qq_path = ''C:/Program Files/Tencent/QQBrowser/QQBrowser.exe''"

definition qq_proc :: proc_info where
  "qq_proc =
     \<lparr>pi_pid = 99, pi_name = Some ''QQBrowser.exe'', pi_exe = Some qq_path,
      pi_cmdline = Some [qq_path, ''--new-window'']\<rparr>"

definition qq_env :: env where
  "qq_env = static_env [qq_proc] []"

definition qq_sys :: sys where
  "qq_sys = (default_sys qq_path)\<lparr>browser_processes := [PopenHandle 1000]\<rparr>"

definition monochrome_proc :: proc_info where
  "monochrome_proc =
     \<lparr>pi_pid = 4242, pi_name = Some ''Monochrome.exe'',
      pi_exe = Some ''C:/Games/Monochrome/Monochrome.exe'', pi_cmdline = Some []\<rparr>"

definition example_window :: launched_window where
  "example_window =
     \<lparr>lw_pid = 1000, lw_hwnd = 500, lw_window_idx = 0, lw_profile_idx = 1,
      lw_url = ''https://www.4399.com'', lw_start_time = 0\<rparr>"

definition webview_proc :: proc_info where
  "webview_proc =
     \<lparr>pi_pid = 88, pi_name = Some ''msedgewebview2.exe'',
      pi_exe = Some ''C:/Program Files/Microsoft/EdgeWebView/msedgewebview2.exe'',
      pi_cmdline = Some []\<rparr>"

definition browser_window :: "nat \<Rightarrow> nat \<Rightarrow> os_window" where
  "browser_window h p =
     \<lparr>ow_hwnd = h, ow_class = ''Chrome_WidgetWin_1'', ow_visible = True, ow_enabled = True,
      ow_pid = p, ow_title = ''New Tab - Google Chrome'', ow_raises = False\<rparr>"

definition example_urls :: "string list" where
  "example_urls = [''https://a.example'', ''https://b.example'']"



definition two_window_env :: env where
  "two_window_env = static_env [chrome_proc] [browser_window 500 1000, browser_window 501 1001]"

definition one_window_env :: env where
  "one_window_env = static_env [chrome_proc] [browser_window 500 1000]"

definition odd_interval_sys :: sys where
  "odd_interval_sys =
     (default_sys chrome_path)
       \<lparr>restart_seconds := 61,
        browser_configs := [\<lparr>cfg_name = ''group1'', cfg_urls = [''https://a.example'']\<rparr>]\<rparr>"

section \<open>Properties of the string tests\<close>

lemma startswith_iff: "startswith sub s \<longleftrightarrow> (\<exists>q. s = sub @ q)"
  by (induction sub s rule: startswith.induct) auto

lemma str_in_iff: "str_in sub s \<longleftrightarrow> (\<exists>p q. s = p @ sub @ q)"
proof (induction s)
  case Nil
  then show ?case by simp
next
  case (Cons c cs)
  show ?case
  proof
    assume "str_in sub (c # cs)"
    then consider "startswith sub (c # cs)" | "str_in sub cs" by auto
    then show "\<exists>p q. c # cs = p @ sub @ q"
    proof cases
      case 1
      then obtain q where "c # cs = sub @ q" using startswith_iff by blast
      then have "c # cs = [] @ sub @ q" by simp
      then show ?thesis by blast
    next
      case 2
      then obtain p q where "cs = p @ sub @ q" using Cons.IH by blast
      then have "c # cs = (c # p) @ sub @ q" by simp
      then show ?thesis by blast
    qed
  next
    assume "\<exists>p q. c # cs = p @ sub @ q"
    then obtain p q where pq: "c # cs = p @ sub @ q" by blast
    show "str_in sub (c # cs)"
    proof (cases p)
      case Nil
      with pq have "startswith sub (c # cs)" using startswith_iff by auto
      then show ?thesis by simp
    next
      case (Cons a p')
      with pq have "cs = p' @ sub @ q" by simp
      then have "str_in sub cs" using Cons.IH by blast
      then show ?thesis by simp
    qed
  qed
qed

section \<open>What starting the fleet logs, and what it leaves unchanged\<close>

lemma evolves_refl: "evolves s s"
  by (simp add: evolves_def)

lemma evolves_trans: "evolves s s1 \<Longrightarrow> evolves s1 s2 \<Longrightarrow> evolves s s2"
  by (simp add: evolves_def)

lemma launch_log_simps:
  "launch_log []"
  "launch_log (x # l) = (launch_event (snd x) \<and> launch_log l)"
  "launch_log (l @ l') = (launch_log l \<and> launch_log l')"
  by (simp_all add: launch_log_def)

lemma sleep_evolves: "0 \<le> d \<Longrightarrow> evolves s (snd (sleep d s))"
  by (simp add: sleep_def evolves_def)

lemma launch_urls_launch_log: "launch_log (fst (launch_urls e i us s))"
  by (induction us arbitrary: i s)
     (auto simp: launch_log_simps sleep_def split_beta split: sum.splits)

lemma launch_urls_evolves: "evolves s (snd (snd (launch_urls e i us s)))"
proof (induction us arbitrary: i s)
  case Nil
  then show ?case by (simp add: evolves_refl)
next
  case (Cons u us)
  have step: "evolves s (snd (sleep START_DELAY (s\<lparr>browser_processes := ps\<rparr>)))" for ps
    by (simp add: sleep_def evolves_def START_DELAY_def)
  have a: "evolves s (snd (snd (launch_urls e (Suc i) us s)))"
    by (rule Cons.IH)
  have b: "evolves s (snd (snd (launch_urls e (Suc i) us
             (snd (sleep START_DELAY (s\<lparr>browser_processes := ps\<rparr>))))))" for ps
    by (rule evolves_trans [OF step Cons.IH])
  show ?case
    by (simp add: split_beta a b split: sum.splits)
qed

lemma locate_windows_launch_log: "launch_log (fst (locate_windows e a r f s))"
proof (induction e a r f s rule: locate_windows.induct)
  case (1 e attempt required_windows found_windows s)
  let ?found = "find_our_browser_windows (enum_windows e (clock s))"
  show ?case
  proof (cases "attempt < max_attempts \<and> \<not> required_windows \<le> length ?found")
    case True
    then have "launch_log (fst (locate_windows e (attempt + 1) required_windows ?found
                 (snd (sleep 3 s))))"
      using "1.IH" [OF _ refl refl _ prod.collapse] by simp
    then show ?thesis
      using True
      by (subst locate_windows.simps) (simp add: launch_log_simps Let_def sleep_def split_beta)
  next
    case False
    then show ?thesis
      by (subst locate_windows.simps) (auto simp: launch_log_simps Let_def)
  qed
qed

lemma locate_windows_evolves: "evolves s (snd (snd (locate_windows e a r f s)))"
proof (induction e a r f s rule: locate_windows.induct)
  case (1 e attempt required_windows found_windows s)
  let ?found = "find_our_browser_windows (enum_windows e (clock s))"
  show ?case
  proof (cases "attempt < max_attempts \<and> \<not> required_windows \<le> length ?found")
    case True
    then have "evolves (snd (sleep 3 s))
                (snd (snd (locate_windows e (attempt + 1) required_windows ?found
                 (snd (sleep 3 s)))))"
      using "1.IH" [OF _ refl refl _ prod.collapse] by simp
    then have "evolves s (snd (snd (locate_windows e (attempt + 1) required_windows ?found
                 (snd (sleep 3 s)))))"
      using evolves_trans [OF sleep_evolves [of 3 s]] by simp
    then show ?thesis
      using True
      by (subst locate_windows.simps) (simp add: Let_def split_beta)
  next
    case False
    then show ?thesis
      by (subst locate_windows.simps) (auto simp: Let_def evolves_refl)
  qed
qed

lemma layout_loop_launch_log: "launch_log (fst (layout_loop e p found started idxs s))"
  by (induction idxs arbitrary: s) (simp_all add: launch_log_simps Let_def split_beta)

lemma layout_loop_evolves: "evolves s (snd (snd (layout_loop e p found started idxs s)))"
proof (induction idxs arbitrary: s)
  case Nil
  then show ?case by (simp add: evolves_refl)
next
  case (Cons idx rest)
  have step: "evolves s (s\<lparr>browser_profiles := ps\<rparr>)" for ps
    by (simp add: evolves_def)
  have b: "evolves s (snd (snd (layout_loop e p found started rest (s\<lparr>browser_profiles := ps\<rparr>))))" for ps
    by (rule evolves_trans [OF step Cons.IH])
  show ?case
    by (simp add: Let_def split_beta evolves_refl b)
qed

lemma window_dump_launch_log: "launch_log (window_dump e s)"
  by (simp add: window_dump_def launch_log_def list_all_iff)

lemma open_urls_in_tabs_launch_log: "launch_log (fst (open_urls_in_tabs e p urls s))"
  by (simp add: open_urls_in_tabs_def split_beta launch_log_simps launch_urls_launch_log
      locate_windows_launch_log layout_loop_launch_log window_dump_launch_log)

lemma open_urls_in_tabs_evolves: "evolves s (snd (open_urls_in_tabs e p urls s))"
proof -
  let ?s1 = "snd (snd (launch_urls e 0 urls s))"
  let ?started = "fst (snd (launch_urls e 0 urls s))"
  let ?loc = "locate_windows e 0 (length ?started) [] ?s1"
  let ?s2 = "snd (snd ?loc)"
  let ?s3 = "snd (snd (layout_loop e p (fst (snd ?loc)) ?started [0..<length ?started] ?s2))"
  have a: "evolves s ?s1" by (rule launch_urls_evolves)
  have b: "evolves s ?s2" by (rule evolves_trans [OF a locate_windows_evolves])
  have c: "evolves s ?s3" by (rule evolves_trans [OF b layout_loop_evolves])
  show ?thesis
    by (simp add: open_urls_in_tabs_def split_beta evolves_refl a b c)
qed

lemma start_groups_launch_log: "launch_log (fst (start_groups e idx cs s))"
  by (induction cs arbitrary: idx s)
     (simp_all add: launch_log_simps split_beta open_urls_in_tabs_launch_log sleep_def)

lemma start_groups_evolves: "evolves s (snd (start_groups e idx cs s))"
proof (induction cs arbitrary: idx s)
  case Nil
  then show ?case by (simp add: evolves_refl)
next
  case (Cons c cs)
  have step: "evolves s' (snd (sleep START_DELAY s'))" for s'
    by (simp add: sleep_evolves START_DELAY_def)
  show ?case
    by (simp add: split_beta
          evolves_trans [OF open_urls_in_tabs_evolves evolves_trans [OF step Cons.IH]])
qed

section \<open>Restart requests and phases of the operations\<close>

lemma browser_running_iff:
  "browser_running path ps \<longleftrightarrow> (\<exists>p \<in> set ps. is_selected_browser path p)"
  by (induction ps) auto

lemma launch_log_requests: "launch_log l \<Longrightarrow> requests l = []"
proof -
  have "launch_event ev \<Longrightarrow> \<not> is_request ev" for ev by (cases ev) simp_all
  then show "launch_log l \<Longrightarrow> requests l = []"
    by (auto simp: launch_log_def requests_def list_all_iff filter_empty_conv)
qed

lemma launch_log_phases: "launch_log l \<Longrightarrow> phases l = []"
proof -
  have "launch_event ev \<Longrightarrow> \<not> is_phase ev" for ev
    by (cases ev) (auto simp: START_DELAY_def STOP_DELAY_def)
  then show "launch_log l \<Longrightarrow> phases l = []"
    by (auto simp: launch_log_def phases_def list_all_iff filter_empty_conv)
qed

lemma cleanup_loop_requests: "requests (cleanup_loop path pid t ps) = []"
  by (induction ps) (auto simp: requests_def split: option.splits)

lemma cleanup_loop_phases: "phases (cleanup_loop path pid t ps) = []"
  by (induction ps) (auto simp: phases_def split: option.splits)

lemma stop_all_browsers_requests: "requests (fst (stop_all_browsers e s)) = []"
  using cleanup_loop_requests
  by (simp add: stop_all_browsers_def cleanup_chrome_processes_def requests_def)

lemma stop_all_browsers_phases: "phases (fst (stop_all_browsers e s)) = [StopAll]"
  using cleanup_loop_phases
  by (simp add: stop_all_browsers_def cleanup_chrome_processes_def phases_def)

lemma stop_all_browsers_evolves: "evolves s (snd (stop_all_browsers e s))"
  by (simp add: stop_all_browsers_def evolves_def)

lemma start_all_browsers_requests: "requests (fst (start_all_browsers e s)) = []"
  using launch_log_requests [OF start_groups_launch_log]
  by (simp add: start_all_browsers_def split_beta requests_def)

lemma start_all_browsers_phases:
  "phases (fst (start_all_browsers e s)) = [StartAll (length (browser_configs s))]"
  using launch_log_phases [OF start_groups_launch_log]
  by (simp add: start_all_browsers_def split_beta phases_def)

lemma start_all_browsers_evolves: "evolves s (snd (start_all_browsers e s))"
proof -
  have step: "evolves s (s\<lparr>last_start_time := a, browser_processes := b, browser_profiles := c\<rparr>)"
    for a b c by (simp add: evolves_def)
  show ?thesis
    by (simp add: start_all_browsers_def split_beta evolves_trans [OF step start_groups_evolves])
qed

lemma requests_append: "requests (l @ l') = requests l @ requests l'"
  by (simp add: requests_def)

lemma phases_append: "phases (l @ l') = phases l @ phases l'"
  by (simp add: phases_def)

lemma requests_Cons:
  "requests (x # l) = (if is_request (snd x) then x # requests l else requests l)"
  by (simp add: requests_def)

lemma phases_Cons:
  "phases (x # l) = (if is_phase (snd x) then snd x # phases l else phases l)"
  by (simp add: phases_def)

lemma sleep_requests: "requests (fst (sleep d s)) = []"
  by (simp add: sleep_def requests_def)

lemma sleep_phases: "phases (fst (sleep d s)) = (if d = STOP_DELAY then [Sleep d] else [])"
  by (simp add: sleep_def phases_def)

lemma force_restart_requests:
  "requests (fst (force_restart e r s)) = [(clock s, ForceRestartRequested r)]"
  by (simp add: force_restart_def split_beta requests_append requests_Cons
      stop_all_browsers_requests sleep_requests start_all_browsers_requests)

lemma force_restart_phases:
  "phases (fst (force_restart e r s)) =
     [StopAll, Sleep STOP_DELAY, StartAll (length (browser_configs s))]"
proof -
  have "browser_configs (snd (sleep STOP_DELAY (snd (stop_all_browsers e s)))) = browser_configs s"
    by (simp add: sleep_def stop_all_browsers_def)
  then show ?thesis
    by (simp add: force_restart_def split_beta phases_append phases_Cons
      stop_all_browsers_phases sleep_phases start_all_browsers_phases)
qed

lemma force_restart_evolves: "evolves s (snd (force_restart e r s))"
proof -
  let ?s1 = "snd (stop_all_browsers e s)"
  let ?s2 = "snd (sleep STOP_DELAY ?s1)"
  have "evolves s ?s2"
    by (rule evolves_trans [OF stop_all_browsers_evolves sleep_evolves]) (simp add: STOP_DELAY_def)
  then have "evolves s (snd (start_all_browsers e ?s2))"
    by (rule evolves_trans [OF _ start_all_browsers_evolves])
  then show ?thesis by (simp add: force_restart_def split_beta)
qed

lemma force_restart_clock: "clock s + STOP_DELAY \<le> clock (snd (force_restart e r s))"
proof -
  let ?s2 = "snd (sleep STOP_DELAY (snd (stop_all_browsers e s)))"
  have "clock ?s2 = clock s + STOP_DELAY" by (simp add: sleep_def stop_all_browsers_def)
  moreover have "clock ?s2 \<le> clock (snd (start_all_browsers e ?s2))"
    using start_all_browsers_evolves [of ?s2 e] by (simp add: evolves_def)
  ultimately show ?thesis by (simp add: force_restart_def split_beta)
qed

lemma requests_Nil: "requests [] = []"
  by (simp add: requests_def)

lemma phases_Nil: "phases [] = []"
  by (simp add: phases_def)

lemma health_check_requests: "requests (fst (health_check e s)) = []"
  by (simp add: health_check_def split_beta requests_append requests_Cons requests_Nil
      stop_all_browsers_requests sleep_requests start_all_browsers_requests)

lemma health_check_phases:
  "phases (fst (health_check e s)) =
     (if browser_processes s = [] \<and> browser_configs s \<noteq> []
      then [StopAll, StartAll (length (browser_configs s))] else [])"
proof -
  have "browser_configs (snd (sleep 5 (snd (stop_all_browsers e s)))) = browser_configs s"
    by (simp add: sleep_def stop_all_browsers_def)
  then show ?thesis
    by (simp add: health_check_def split_beta phases_append phases_Cons phases_Nil
      stop_all_browsers_phases sleep_phases start_all_browsers_phases STOP_DELAY_def)
qed

lemma cleanup_loop_member:
  "(t', Terminate pid label) \<in> set (cleanup_loop path self_pid t ps) \<Longrightarrow>
     \<exists>p \<in> set ps. pi_pid p = pid \<and> cleanup_target path self_pid p = Some label"
  by (induction ps) (auto split: option.splits)

lemma not_chrome_in_msedge: "\<not> str_in ''chrome'' ''msedge.exe''"
  by simp

lemma not_msedge_in_chrome: "\<not> str_in ''msedge.exe'' ''chrome.exe''"
  by simp

lemma cpu_check_requests:
  "requests (fst (cpu_check e cpu s)) =
     (if \<not> in_startup_protection s \<and> real_of_int (max_cpu_percent s) < cpu
      then [(clock s, ForceRestartRequested CpuTooHigh)] else [])"
  by (simp add: cpu_check_def split_beta requests_Cons requests_Nil force_restart_requests)

lemma cpu_check_phases:
  "phases (fst (cpu_check e cpu s)) =
     (if \<not> in_startup_protection s \<and> real_of_int (max_cpu_percent s) < cpu
      then [StopAll, Sleep STOP_DELAY, StartAll (length (browser_configs s))] else [])"
  by (simp add: cpu_check_def split_beta phases_Cons phases_Nil force_restart_phases)

lemma cpu_check_evolves: "evolves s (snd (cpu_check e cpu s))"
  by (simp add: cpu_check_def split_beta evolves_refl force_restart_evolves)

lemma memory_check_requests:
  "requests (fst (memory_check e mem s)) =
     (if real_of_int (max_memory_percent s) < mem
      then [(clock s, ForceRestartRequested MemoryTooHigh)] else [])"
  by (simp add: memory_check_def split_beta requests_Cons requests_Nil force_restart_requests)

lemma memory_check_phases:
  "phases (fst (memory_check e mem s)) =
     (if real_of_int (max_memory_percent s) < mem
      then [StopAll, Sleep STOP_DELAY, StartAll (length (browser_configs s))] else [])"
  by (simp add: memory_check_def split_beta phases_Cons phases_Nil force_restart_phases)

lemma monitor_body_requests:
  "requests (fst (monitor_body e cpu mem s0)) =
     (if \<not> in_startup_protection (s0\<lparr>clock := clock s0 + 1\<rparr>)
         \<and> real_of_int (max_cpu_percent s0) < cpu
      then [(clock s0 + 1, ForceRestartRequested CpuTooHigh)] else [])
     @ (if real_of_int (max_memory_percent s0) < mem
        then [(clock (snd (cpu_check e cpu (s0\<lparr>clock := clock s0 + 1\<rparr>))),
               ForceRestartRequested MemoryTooHigh)] else [])"
proof -
  let ?s = "s0\<lparr>clock := clock s0 + 1\<rparr>"
  have "max_memory_percent (snd (cpu_check e cpu ?s)) = max_memory_percent s0"
    using cpu_check_evolves [of ?s e cpu] by (simp add: evolves_def)
  then show ?thesis
    by (simp add: monitor_body_def Let_def split_beta requests_append requests_Cons requests_Nil
        cpu_check_requests memory_check_requests health_check_requests)
qed

lemma monitor_body_phases:
  "phases (fst (monitor_body e cpu mem s0)) =
     (if \<not> in_startup_protection (s0\<lparr>clock := clock s0 + 1\<rparr>)
         \<and> real_of_int (max_cpu_percent s0) < cpu
      then [StopAll, Sleep STOP_DELAY, StartAll (length (browser_configs s0))] else [])
     @ (if real_of_int (max_memory_percent s0) < mem
        then [StopAll, Sleep STOP_DELAY, StartAll (length (browser_configs s0))] else [])
     @ phases (fst (health_check e (check_browser_processes e
         (snd (memory_check e mem (snd (cpu_check e cpu (s0\<lparr>clock := clock s0 + 1\<rparr>))))))))"
proof -
  let ?s = "s0\<lparr>clock := clock s0 + 1\<rparr>"
  have "max_memory_percent (snd (cpu_check e cpu ?s)) = max_memory_percent s0"
       "browser_configs (snd (cpu_check e cpu ?s)) = browser_configs s0"
    using cpu_check_evolves [of ?s e cpu] by (simp_all add: evolves_def)
  then show ?thesis
    by (simp add: monitor_body_def Let_def split_beta phases_append phases_Cons phases_Nil
        cpu_check_phases memory_check_phases)
qed


lemma memory_check_evolves: "evolves s (snd (memory_check e mem s))"
  by (simp add: memory_check_def split_beta evolves_refl force_restart_evolves)

lemma chrome_proc_selected: "is_selected_browser chrome_path chrome_proc"
  by code_simp

lemma check_browser_processes_alive:
  assumes "path_set (browser_path s)"
    and "browser_running (the (browser_path s)) (process_iter e (clock s))"
  shows "browser_processes (check_browser_processes e s) \<noteq> []"
  using assms by (simp add: check_browser_processes_def)

section \<open>Process health monitor: reconcile and recovery\<close>

text \<open>
  What \<^verbatim>\<open>check_browser_processes\<close> does, in terms of its own test of a process
  (\<open>is_selected_browser\<close>). With a resolved browser path the active-process list is
  non-empty afterwards exactly when the process table holds a process that passes the
  test: the list is emptied when there is none; when there is one and the list was
  empty, the placeholder \<open>DummyProcess\<close> is put in, and the full-exit recovery of the
  monitoring loop then does nothing.
\<close>

lemma check_browser_processes_follows_own_test:
  assumes "path_set (browser_path s)"
  shows "((browser_processes (check_browser_processes e s) \<noteq> []) =
            (\<exists>p \<in> set (process_iter e (clock s)). is_selected_browser (the (browser_path s)) p))
       \<and> ((\<forall>p \<in> set (process_iter e (clock s)). \<not> is_selected_browser (the (browser_path s)) p)
            \<longrightarrow> browser_processes (check_browser_processes e s) = [])
       \<and> ((\<exists>p \<in> set (process_iter e (clock s)). is_selected_browser (the (browser_path s)) p)
            \<longrightarrow> (browser_processes s = []
                   \<longrightarrow> browser_processes (check_browser_processes e s) = [DummyProcess])
              \<and> health_check e (check_browser_processes e s) = ([], check_browser_processes e s))"
  using assms by (auto simp: check_browser_processes_def browser_running_iff health_check_def)

text \<open>
  The default state with one live Chrome process: the placeholder is inserted. A state
  with one spawned handle when only the web-runtime host is alive: the list is emptied.
\<close>

lemma check_browser_processes_follows_own_test_example:
  "path_set (browser_path (default_sys chrome_path))
   \<and> browser_processes (default_sys chrome_path) = []
   \<and> is_selected_browser (the (browser_path (default_sys chrome_path))) chrome_proc
   \<and> browser_processes (check_browser_processes (static_env [chrome_proc] [])
        (default_sys chrome_path)) = [DummyProcess]
   \<and> browser_processes (check_browser_processes (static_env [webview_proc] [])
        ((default_sys chrome_path)\<lparr>browser_processes := [PopenHandle 1000]\<rparr>)) = []"
proof -
  let ?t = "(default_sys chrome_path)\<lparr>browser_processes := [PopenHandle 1000]\<rparr>"
  have a': "path_set (browser_path ?t)"
    by code_simp
  have n: "\<forall>p \<in> set (process_iter (static_env [webview_proc] []) (clock ?t)).
             \<not> is_selected_browser (the (browser_path ?t)) p"
    by code_simp
  have dead: "browser_processes (check_browser_processes (static_env [webview_proc] []) ?t) = []"
    using check_browser_processes_follows_own_test [OF a', of "static_env [webview_proc] []"] n
    by blast
  have a: "path_set (browser_path (default_sys chrome_path))"
    by code_simp
  have b: "browser_processes (default_sys chrome_path) = []"
    by code_simp
  have c: "is_selected_browser (the (browser_path (default_sys chrome_path))) chrome_proc"
    by code_simp
  have d: "chrome_proc \<in> set (process_iter (static_env [chrome_proc] [])
             (clock (default_sys chrome_path)))"
    by (simp add: static_env_def)
  show ?thesis
    using check_browser_processes_follows_own_test [OF a, of "static_env [chrome_proc] []"]
      a b c d dead by blast
qed

text \<open>
  The test knows two browsers only. For a browser path that contains neither \<open>chrome\<close>
  nor \<open>msedge\<close> no process passes it, and the list is emptied whatever is running.
\<close>

lemma check_browser_processes_other_path:
  assumes "path_set (browser_path s)"
    and "\<not> str_in ''chrome'' (lower (the (browser_path s)))"
    and "\<not> str_in ''msedge'' (lower (the (browser_path s)))"
  shows "browser_processes (check_browser_processes e s) = []"
proof -
  have "\<not> is_selected_browser (the (browser_path s)) p" for p
    using assms(2,3) by (simp add: is_selected_browser_def)
  then have "\<not> browser_running (the (browser_path s)) ps" for ps
    by (simp add: browser_running_iff)
  then show ?thesis
    using assms(1) by (simp add: check_browser_processes_def)
qed

text \<open>
  Claim C9: after every run of \<^verbatim>\<open>check_browser_processes\<close> with a resolved browser path
  the active-process list is non-empty if and only if a live process of the selected
  browser exists, so that the full-exit recovery never fires while the browser is alive.
  The comments of the function state the same intent (is a process of the browser in
  use still running; keep one entry in the list so that the health check does not
  restart), and its docstring names the QQ browser beside Chrome and Edge. The code does
  not keep it for a custom browser path, which the constructor accepts as it is. With
  the QQ browser selected and a live process running that very executable, the list of
  one spawned handle is emptied, the recovery of the monitoring loop runs stop-all and
  start-all, and the stop terminates nothing, the browser being none that the
  termination step knows.
\<close>

theorem reconcile_clears_live_custom_browser:
  "path_set (browser_path qq_sys)
   \<and> process_iter qq_env (clock qq_sys) = [qq_proc]
   \<and> pi_exe qq_proc = browser_path qq_sys
   \<and> browser_processes qq_sys = [PopenHandle 1000]
   \<and> browser_processes (check_browser_processes qq_env qq_sys) = []
   \<and> phases (fst (health_check qq_env (check_browser_processes qq_env qq_sys)))
       = [StopAll, StartAll 1]
   \<and> cleanup_chrome_processes qq_env (check_browser_processes qq_env qq_sys) = []"
proof -
  have a: "path_set (browser_path qq_sys)"
    and b: "process_iter qq_env (clock qq_sys) = [qq_proc]"
    and c: "pi_exe qq_proc = browser_path qq_sys"
    and d: "browser_processes qq_sys = [PopenHandle 1000]"
    and e: "browser_processes (check_browser_processes qq_env qq_sys) = []"
    and f: "cleanup_chrome_processes qq_env (check_browser_processes qq_env qq_sys) = []"
    by code_simp+
  have g: "browser_configs (check_browser_processes qq_env qq_sys) = browser_configs qq_sys"
    by (simp add: check_browser_processes_def)
  have h: "length (browser_configs qq_sys) = 1"
    by (simp add: qq_sys_def default_sys_def)
  then have "browser_configs qq_sys \<noteq> []" by auto
  then have "phases (fst (health_check qq_env (check_browser_processes qq_env qq_sys)))
       = [StopAll, StartAll 1]"
    by (simp add: health_check_phases e g h)
  with a b c d e f show ?thesis by (intro conjI)
qed

text \<open>
  Claim C4, as stated, fails: with no live browser process, \<^verbatim>\<open>check_browser_processes\<close>
  empties the process list and leaves the window records \<^verbatim>\<open>browser_profiles\<close> as they are.
\<close>

theorem reconcile_keeps_window_set_counterexample:
  "\<not> browser_running chrome_path
       (process_iter (static_env [] []) (clock (default_sys chrome_path)))
   \<and> browser_processes
        (check_browser_processes (static_env [] [])
           ((default_sys chrome_path)\<lparr>browser_processes := [PopenHandle 1000],
              browser_profiles := [example_window]\<rparr>)) = []
   \<and> browser_profiles
        (check_browser_processes (static_env [] [])
           ((default_sys chrome_path)\<lparr>browser_processes := [PopenHandle 1000],
              browser_profiles := [example_window]\<rparr>)) = [example_window]"
  by code_simp

text \<open>
  Claim C4, amended. When the health monitor finds no live process of the selected
  browser, \<^verbatim>\<open>check_browser_processes\<close> empties the active-process list only. With a
  non-empty group list the monitoring loop then runs its recovery: stop-all (which is
  what empties the window records, and the process list again), a 5 second sleep, and
  start-all. The recovery is not a forced restart: it logs no restart request and has no
  \<open>STOP_DELAY\<close> (15 second) sleep.
\<close>

theorem reconcile_no_live_process_recovery:
  assumes "path_set (browser_path s)"
    and "\<forall>p \<in> set (process_iter e (clock s)). \<not> is_selected_browser (the (browser_path s)) p"
    and "browser_configs s \<noteq> []"
  shows "browser_processes (check_browser_processes e s) = []
       \<and> browser_profiles (check_browser_processes e s) = browser_profiles s
       \<and> (let s' = check_browser_processes e s;
               stopped = stop_all_browsers e s';
               slept = sleep 5 (snd stopped);
               started = start_all_browsers e (snd slept)
           in health_check e s' =
                ((clock s, AllExited) # fst stopped @ fst slept @ fst started, snd started)
              \<and> browser_processes (snd stopped) = []
              \<and> browser_profiles (snd stopped) = []
              \<and> fst slept = [(clock s, Sleep 5)])
       \<and> requests (fst (health_check e (check_browser_processes e s))) = []
       \<and> phases (fst (health_check e (check_browser_processes e s))) =
           [StopAll, StartAll (length (browser_configs s))]"
proof -
  let ?s' = "check_browser_processes e s"
  have nr: "\<not> browser_running (the (browser_path s)) (process_iter e (clock s))"
    using assms(2) by (simp add: browser_running_iff)
  have s': "?s' = s\<lparr>browser_processes := []\<rparr>"
    using assms(1) nr by (simp add: check_browser_processes_def)
  have "phases (fst (health_check e ?s')) = [StopAll, StartAll (length (browser_configs s))]"
    using assms(3) by (simp add: health_check_phases s')
  moreover have "requests (fst (health_check e ?s')) = []"
    by (rule health_check_requests)
  moreover have "health_check e ?s' =
     ((clock s, AllExited) # fst (stop_all_browsers e ?s')
        @ fst (sleep 5 (snd (stop_all_browsers e ?s')))
        @ fst (start_all_browsers e (snd (sleep 5 (snd (stop_all_browsers e ?s'))))),
      snd (start_all_browsers e (snd (sleep 5 (snd (stop_all_browsers e ?s'))))))"
    using assms(3) by (simp add: health_check_def split_beta s')
  moreover have "fst (sleep 5 (snd (stop_all_browsers e ?s'))) = [(clock s, Sleep 5)]"
    by (simp add: sleep_def stop_all_browsers_def s')
  moreover have "browser_processes (snd (stop_all_browsers e ?s')) = []"
    "browser_profiles (snd (stop_all_browsers e ?s')) = []"
    by (simp_all add: stop_all_browsers_def)
  ultimately show ?thesis
    by (simp add: Let_def s')
qed

theorem reconcile_no_live_process_recovery_witness:
  "path_set (browser_path ((default_sys chrome_path)\<lparr>browser_profiles := [example_window]\<rparr>))
   \<and> process_iter (static_env [] [])
        (clock ((default_sys chrome_path)\<lparr>browser_profiles := [example_window]\<rparr>)) = []
   \<and> browser_configs ((default_sys chrome_path)\<lparr>browser_profiles := [example_window]\<rparr>) \<noteq> []
   \<and> browser_profiles
        (check_browser_processes (static_env [] [])
           ((default_sys chrome_path)\<lparr>browser_profiles := [example_window]\<rparr>)) = [example_window]
   \<and> phases (fst (health_check (static_env [] [])
        (check_browser_processes (static_env [] [])
           ((default_sys chrome_path)\<lparr>browser_profiles := [example_window]\<rparr>))))
       = [StopAll, StartAll 1]"
proof -
  let ?s = "(default_sys chrome_path)\<lparr>browser_profiles := [example_window]\<rparr>"
  let ?e = "static_env [] []"
  have a: "path_set (browser_path ?s)"
    by code_simp
  have b: "process_iter ?e (clock ?s) = []"
    by (simp add: static_env_def)
  have c: "browser_configs ?s \<noteq> []"
    by (simp add: default_sys_def)
  have d: "browser_profiles ?s = [example_window]" "length (browser_configs ?s) = 1"
    by (simp_all add: default_sys_def)
  have "\<forall>p \<in> set (process_iter ?e (clock ?s)). \<not> is_selected_browser (the (browser_path ?s)) p"
    using b by simp
  from reconcile_no_live_process_recovery [OF a this c] show ?thesis
    using a b c d by simp
qed

section \<open>Termination step\<close>

text \<open>
  What the termination step keeps to, for every process table. Every process that
  \<^verbatim>\<open>cleanup_chrome_processes\<close> terminates is in the process table, is not the supervisor
  itself, has no \<open>msedgewebview2.exe\<close> in its name and no \<open>steam\<close> in its executable path
  or command line, and carries the marker of the selected browser in its name: \<open>chrome\<close>
  (and no \<open>steam\<close>) when the browser path contains \<open>chrome\<close>, otherwise \<open>msedge.exe\<close> with
  a browser path that contains \<open>msedge\<close>. So a process named \<open>msedge.exe\<close> survives a
  Chrome cleanup and one named \<open>chrome.exe\<close> an Edge cleanup.
\<close>

lemma cleanup_terminates_only_marked_processes:
  assumes "(t, Terminate pid label) \<in> set (cleanup_chrome_processes e s)"
  shows "\<exists>p \<in> set (process_iter e (clock s)).
           pi_pid p = pid \<and> pid \<noteq> getpid e \<and> path_set (browser_path s)
           \<and> \<not> str_in ''msedgewebview2.exe'' (lower (or_empty (pi_name p)))
           \<and> \<not> str_in ''steam'' (lower (or_empty (pi_exe p)))
           \<and> \<not> str_in ''steam'' (lower (str_join '' '' (or_nil (pi_cmdline p))))
           \<and> (if str_in ''chrome'' (lower (the (browser_path s))) then
                 label = ''Chrome''
                 \<and> str_in ''chrome'' (lower (or_empty (pi_name p)))
                 \<and> \<not> str_in ''steam'' (lower (or_empty (pi_name p)))
                 \<and> lower (or_empty (pi_name p)) \<noteq> ''msedge.exe''
               else
                 str_in ''msedge'' (lower (the (browser_path s)))
                 \<and> label = ''Edge''
                 \<and> str_in ''msedge.exe'' (lower (or_empty (pi_name p)))
                 \<and> lower (or_empty (pi_name p)) \<noteq> ''chrome.exe'')"
proof -
  have ps: "path_set (browser_path s)"
    using assms by (auto simp: cleanup_chrome_processes_def split: if_splits)
  then have "(t, Terminate pid label) \<in>
      set (cleanup_loop (the (browser_path s)) (getpid e) (clock s) (process_iter e (clock s)))"
    using assms by (simp add: cleanup_chrome_processes_def)
  then obtain p where p: "p \<in> set (process_iter e (clock s))" "pi_pid p = pid"
      "cleanup_target (the (browser_path s)) (getpid e) p = Some label"
    using cleanup_loop_member by blast
  have "pid \<noteq> getpid e \<and> \<not> str_in ''msedgewebview2.exe'' (lower (or_empty (pi_name p)))
      \<and> \<not> str_in ''steam'' (lower (or_empty (pi_exe p)))
      \<and> \<not> str_in ''steam'' (lower (str_join '' '' (or_nil (pi_cmdline p))))
      \<and> (if str_in ''chrome'' (lower (the (browser_path s))) then
                 label = ''Chrome''
                 \<and> str_in ''chrome'' (lower (or_empty (pi_name p)))
                 \<and> \<not> str_in ''steam'' (lower (or_empty (pi_name p)))
                 \<and> lower (or_empty (pi_name p)) \<noteq> ''msedge.exe''
               else
                 str_in ''msedge'' (lower (the (browser_path s)))
                 \<and> label = ''Edge''
                 \<and> str_in ''msedge.exe'' (lower (or_empty (pi_name p)))
                 \<and> lower (or_empty (pi_name p)) \<noteq> ''chrome.exe'')"
    using p(2,3) not_chrome_in_msedge not_msedge_in_chrome
    by (auto simp: cleanup_target_def Let_def split: if_splits)
  then show ?thesis using p(1,2) ps by blast
qed

lemma cleanup_terminates_only_marked_processes_example:
  "(0, Terminate 77 ''Chrome'') \<in>
      set (cleanup_chrome_processes (static_env [webview_proc, chrome_proc] [])
             (default_sys chrome_path))
   \<and> 77 \<noteq> getpid (static_env [webview_proc, chrome_proc] [])
   \<and> path_set (browser_path (default_sys chrome_path))"
proof -
  have m: "(0, Terminate 77 ''Chrome'') \<in>
      set (cleanup_chrome_processes (static_env [webview_proc, chrome_proc] [])
             (default_sys chrome_path))"
    by code_simp
  from cleanup_terminates_only_marked_processes [OF m] show ?thesis
    using m by blast
qed

text \<open>
  Claim C8: the termination step terminates only processes of the selected browser and
  never an unrelated application that merely shares a substring of the executable name.
  The docstring and the comments of \<^verbatim>\<open>cleanup_chrome_processes\<close> state the same intent
  (only the browser type in use is cleaned, other processes such as Steam are excluded).
  The code does not keep it. With Chrome selected the name test is the bare substring
  \<open>chrome\<close>, and only names, paths and command lines that contain \<open>steam\<close> are excluded:
  a process \<open>Monochrome.exe\<close> of a program installed under \<open>C:/Games/Monochrome\<close>, which is
  no browser, is terminated.
\<close>

theorem cleanup_terminates_lookalike_process:
  "cleanup_chrome_processes (static_env [monochrome_proc] []) (default_sys chrome_path)
     = [(0, Terminate 4242 ''Chrome'')]"
  by code_simp

section \<open>Resource monitor and restart requests\<close>



text \<open>
  Claim C2, as stated, fails: one monitoring pass outside the protection period in which
  both the CPU and the memory sample exceed their thresholds executes two complete
  stop, delay, start sequences, one after the other.
\<close>

theorem double_breach_two_restarts_counterexample:
  "map snd (requests (fst (monitor_body (static_env [chrome_proc] []) 95 95
                             (default_sys chrome_path))))
     = [ForceRestartRequested CpuTooHigh, ForceRestartRequested MemoryTooHigh]
   \<and> phases (fst (monitor_body (static_env [chrome_proc] []) 95 95 (default_sys chrome_path)))
     = [StopAll, Sleep STOP_DELAY, StartAll 1, StopAll, Sleep STOP_DELAY, StartAll 1]"
proof -
  let ?e = "static_env [chrome_proc] []"
  let ?s0 = "default_sys chrome_path"
  let ?s = "?s0\<lparr>clock := clock ?s0 + 1\<rparr>"
  let ?s2 = "snd (memory_check ?e 95 (snd (cpu_check ?e 95 ?s)))"
  have np: "\<not> in_startup_protection ?s"
    by (simp add: in_startup_protection_def default_sys_def)
  have th: "real_of_int (max_cpu_percent ?s0) < 95" "real_of_int (max_memory_percent ?s0) < 95"
       "length (browser_configs ?s0) = 1"
    by (simp_all add: default_sys_def)
  have "evolves ?s ?s2"
    by (rule evolves_trans [OF cpu_check_evolves memory_check_evolves])
  then have path: "browser_path ?s2 = Some chrome_path"
    by (simp add: evolves_def default_sys_def)
  have run: "browser_running chrome_path (process_iter ?e (clock ?s2))"
    by (simp add: static_env_def chrome_proc_selected)
  have ne: "chrome_path \<noteq> []"
    by (simp add: chrome_path_def)
  have "browser_processes (check_browser_processes ?e ?s2) \<noteq> []"
    by (rule check_browser_processes_alive) (simp_all add: path run path_set_def ne)
  then have h: "phases (fst (health_check ?e (check_browser_processes ?e ?s2))) = []"
    by (simp add: health_check_phases)
  show ?thesis
    using np th h by (simp add: monitor_body_requests monitor_body_phases)
qed

text \<open>
  Claim C2, amended. Restart requests are not serialised. \<^verbatim>\<open>force_restart\<close> has no
  restart-in-progress check: in every state it logs its request and runs stop-all, the
  \<open>STOP_DELAY\<close> sleep and start-all, so two requests run two sequences, also when the
  second finds the state that the stop step of the first has left; and a monitoring pass
  runs one sequence for a CPU breach outside the protection period plus one for a memory
  breach.
\<close>

theorem every_restart_request_executes:
  "requests (fst (force_restart e r s)) = [(clock s, ForceRestartRequested r)]
   \<and> phases (fst (force_restart e r s)) =
       [StopAll, Sleep STOP_DELAY, StartAll (length (browser_configs s))]
   \<and> phases (fst (force_restart e r s))
       @ phases (fst (force_restart e r' (snd (force_restart e r s)))) =
       [StopAll, Sleep STOP_DELAY, StartAll (length (browser_configs s)),
        StopAll, Sleep STOP_DELAY, StartAll (length (browser_configs s))]
   \<and> phases (fst (force_restart e r' (snd (stop_all_browsers e s)))) =
       [StopAll, Sleep STOP_DELAY, StartAll (length (browser_configs s))]
   \<and> length (requests (fst (monitor_body e cpu mem s0))) =
       (if real_of_int (max_cpu_percent s0) < cpu
           \<and> \<not> in_startup_protection (s0\<lparr>clock := clock s0 + 1\<rparr>) then 1 else 0)
       + (if real_of_int (max_memory_percent s0) < mem then 1 else 0)"
proof -
  have "browser_configs (snd (force_restart e r s)) = browser_configs s"
    using force_restart_evolves [of s e r] by (simp add: evolves_def)
  moreover have "browser_configs (snd (stop_all_browsers e s)) = browser_configs s"
    by (simp add: stop_all_browsers_def)
  ultimately show ?thesis
    by (simp add: force_restart_requests force_restart_phases monitor_body_requests)
qed

section \<open>Launch controller\<close>

lemma launch_urls_unset:
  "\<not> path_set (browser_path s) \<Longrightarrow>
     launch_urls e i urls s = (map (\<lambda>u. (clock s, SpawnFailed u FileNotFoundError)) urls, [], s)"
  by (induction urls arbitrary: i) (simp_all add: create_browser_args_def)

lemma locate_windows_none_required:
  "locate_windows e 0 0 f s =
     ([(clock s, EnumWindowsCall),
       (clock s, LocateAttempt 1 (length (find_our_browser_windows (enum_windows e (clock s)))) 0)],
      find_our_browser_windows (enum_windows e (clock s)), s)"
  by (subst locate_windows.simps) (simp add: max_attempts_def Let_def)

text \<open>
  Claim C3, as stated, fails: with the browser path unset, launching a group of two URLs
  does not stop at the first configuration error. Each URL fails in turn, then the
  window locator and the diagnostic enumeration run, and the operation returns normally.
\<close>

theorem unset_path_launch_goes_on_counterexample:
  "fst (open_urls_in_tabs (static_env [] []) 1 example_urls
          ((default_sys chrome_path)\<lparr>browser_path := None\<rparr>))
     = [(0, SpawnFailed ''https://a.example'' FileNotFoundError),
        (0, SpawnFailed ''https://b.example'' FileNotFoundError),
        (0, EnumWindowsCall), (0, LocateAttempt 1 0 0), (0, EnumWindowsCall)]"
  by code_simp

text \<open>
  Claim C3, amended. With the browser path unset, \<^verbatim>\<open>create_browser_args\<close> raises the
  configuration error \<open>FileNotFoundError\<close> for every URL before a spawn is attempted, so
  no URL of the group is spawned and the state (the active-process list included) is
  unchanged. The error is caught and logged per URL, like any other spawn failure; the
  operation goes on through the remaining URLs, the window locator (which needs zero
  windows) and the diagnostic enumeration, and returns normally.
\<close>

theorem unset_path_spawns_nothing:
  assumes "\<not> path_set (browser_path s)"
  shows "create_browser_args s url = Inl FileNotFoundError
       \<and> launch_urls e 0 urls s =
           (map (\<lambda>u. (clock s, SpawnFailed u FileNotFoundError)) urls, [], s)
       \<and> snd (open_urls_in_tabs e p urls s) = s
       \<and> filter (\<lambda>x. is_spawn (snd x)) (fst (open_urls_in_tabs e p urls s)) = []
       \<and> (urls \<noteq> [] \<longrightarrow>
            fst (open_urls_in_tabs e p urls s) =
              map (\<lambda>u. (clock s, SpawnFailed u FileNotFoundError)) urls
              @ (if win32gui_importable e then
                   [(clock s, EnumWindowsCall),
                    (clock s, LocateAttempt 1
                       (length (find_our_browser_windows (enum_windows e (clock s)))) 0)]
                   @ window_dump e s
                 else [(clock s, ImportFailed)]))"
proof -
  have a: "create_browser_args s url = Inl FileNotFoundError"
    using assms by (simp add: create_browser_args_def)
  have b: "launch_urls e 0 urls s =
      (map (\<lambda>u. (clock s, SpawnFailed u FileNotFoundError)) urls, [], s)"
    using assms by (rule launch_urls_unset)
  have c: "open_urls_in_tabs e p urls s =
      (if urls = [] then ([(clock s, SkipEmptyGroup p)], s)
       else (map (\<lambda>u. (clock s, SpawnFailed u FileNotFoundError)) urls
              @ (if win32gui_importable e then
                   [(clock s, EnumWindowsCall),
                    (clock s, LocateAttempt 1
                       (length (find_our_browser_windows (enum_windows e (clock s)))) 0)]
                   @ window_dump e s
                 else [(clock s, ImportFailed)]), s))"
    by (simp add: open_urls_in_tabs_def b locate_windows_none_required)
  have d: "filter (\<lambda>x. is_spawn (snd x)) (fst (open_urls_in_tabs e p urls s)) = []"
    unfolding c by (auto simp: window_dump_def filter_empty_conv)
  show ?thesis using a b d by (simp add: c)
qed

theorem unset_path_spawns_nothing_witness:
  "\<not> path_set (browser_path ((default_sys chrome_path)\<lparr>browser_path := None\<rparr>))
   \<and> launch_urls (static_env [] []) 0 example_urls
        ((default_sys chrome_path)\<lparr>browser_path := None\<rparr>)
      = ([(0, SpawnFailed ''https://a.example'' FileNotFoundError),
          (0, SpawnFailed ''https://b.example'' FileNotFoundError)], [],
         (default_sys chrome_path)\<lparr>browser_path := None\<rparr>)
   \<and> example_urls \<noteq> []
   \<and> snd (open_urls_in_tabs (static_env [] []) 1 example_urls
            ((default_sys chrome_path)\<lparr>browser_path := None\<rparr>))
      = (default_sys chrome_path)\<lparr>browser_path := None\<rparr>
   \<and> filter (\<lambda>x. is_spawn (snd x))
        (fst (open_urls_in_tabs (static_env [] []) 1 example_urls
               ((default_sys chrome_path)\<lparr>browser_path := None\<rparr>))) = []"
proof -
  let ?s = "(default_sys chrome_path)\<lparr>browser_path := None\<rparr>"
  have a: "\<not> path_set (browser_path ?s)"
    by (simp add: path_set_def)
  have b: "example_urls \<noteq> []"
    by (simp add: example_urls_def)
  have c: "map (\<lambda>u. (clock ?s, SpawnFailed u FileNotFoundError)) example_urls =
             [(0, SpawnFailed ''https://a.example'' FileNotFoundError),
              (0, SpawnFailed ''https://b.example'' FileNotFoundError)]"
    by (simp add: example_urls_def default_sys_def)
  from unset_path_spawns_nothing [OF a, of _ "static_env [] []" example_urls 1]
  have "launch_urls (static_env [] []) 0 example_urls ?s =
           (map (\<lambda>u. (clock ?s, SpawnFailed u FileNotFoundError)) example_urls, [], ?s)"
    and "snd (open_urls_in_tabs (static_env [] []) 1 example_urls ?s) = ?s"
    and "filter (\<lambda>x. is_spawn (snd x))
           (fst (open_urls_in_tabs (static_env [] []) 1 example_urls ?s)) = []"
    by blast+
  then show ?thesis
    unfolding c using a b by (intro conjI)
qed

section \<open>Layout engine\<close>






section \<open>Window locator\<close>








section \<open>Diagnostic enumeration\<close>

text \<open>
  Claim C10. Whenever \<^verbatim>\<open>open_urls_in_tabs\<close> is given a non-empty URL list, the win32
  modules import and no exception reaches the layout handler, its log ends with the
  diagnostic enumeration taken at the final state: one line (handle, class name,
  process id, the first 30 characters of the title) for every visible browser window
  then in the registry. This holds in particular when enough windows were found and the
  cascade layout was applied.
\<close>

theorem diagnostic_dump_unconditional:
  assumes "urls \<noteq> []"
    and "win32gui_importable e"
    and "\<forall>t. (t, LayoutFailed) \<notin> set (fst (open_urls_in_tabs e p urls s))"
  shows "(\<exists>l. fst (open_urls_in_tabs e p urls s) =
               l @ window_dump e (snd (open_urls_in_tabs e p urls s)))
       \<and> (\<forall>w \<in> set (enum_windows e (clock (snd (open_urls_in_tabs e p urls s)))).
            \<not> ow_raises w \<and> ow_visible w \<and> is_browser_class (ow_class w) \<longrightarrow>
            (clock (snd (open_urls_in_tabs e p urls s)),
             WindowDump (ow_hwnd w) (ow_class w) (ow_pid w) (take 30 (ow_title w)))
              \<in> set (fst (open_urls_in_tabs e p urls s)))
       \<and> (let started = fst (snd (launch_urls e 0 urls s));
               located = locate_windows e 0 (length started) [] (snd (snd (launch_urls e 0 urls s)));
               found = fst (snd located)
           in length started \<le> length found \<longrightarrow>
                fst (open_urls_in_tabs e p urls s) =
                  fst (launch_urls e 0 urls s) @ fst located
                  @ fst (layout_loop e p found started [0..<length started] (snd (snd located)))
                  @ window_dump e (snd (open_urls_in_tabs e p urls s)))"
proof -
  let ?started = "fst (snd (launch_urls e 0 urls s))"
  let ?located = "locate_windows e 0 (length ?started) [] (snd (snd (launch_urls e 0 urls s)))"
  let ?found = "fst (snd ?located)"
  let ?layout = "layout_loop e p ?found ?started [0..<length ?started] (snd (snd ?located))"
  let ?res = "open_urls_in_tabs e p urls s"
  have nr: "length ?started \<le> length ?found \<Longrightarrow> \<not> fst (snd ?layout)"
  proof
    assume "length ?started \<le> length ?found" and "fst (snd ?layout)"
    then have "(clock (snd (snd ?layout)), LayoutFailed) \<in> set (fst ?res)"
      using assms(1,2) by (simp add: open_urls_in_tabs_def split_beta)
    with assms(3) show False by blast
  qed
  have enough: "length ?started \<le> length ?found \<Longrightarrow>
      fst ?res = fst (launch_urls e 0 urls s) @ fst ?located @ fst ?layout
                   @ window_dump e (snd ?res)"
    using assms(1,2) nr by (simp add: open_urls_in_tabs_def split_beta)
  have partial: "\<not> length ?started \<le> length ?found \<Longrightarrow>
      fst ?res = fst (launch_urls e 0 urls s) @ fst ?located
                   @ [(clock (snd (snd ?located)), LayoutSkipped (length ?found) (length ?started))]
                   @ window_dump e (snd ?res)"
    using assms(1,2) by (simp add: open_urls_in_tabs_def split_beta)
  have ex: "\<exists>l. fst ?res = l @ window_dump e (snd ?res)"
  proof (cases "length ?started \<le> length ?found")
    case True
    from enough [OF True] have "fst ?res =
        (fst (launch_urls e 0 urls s) @ fst ?located @ fst ?layout) @ window_dump e (snd ?res)"
      by simp
    then show ?thesis by blast
  next
    case False
    from partial [OF False] have "fst ?res =
        (fst (launch_urls e 0 urls s) @ fst ?located
           @ [(clock (snd (snd ?located)), LayoutSkipped (length ?found) (length ?started))])
        @ window_dump e (snd ?res)"
      by simp
    then show ?thesis by blast
  qed
  then obtain l where l: "fst ?res = l @ window_dump e (snd ?res)" by blast
  have dump: "\<forall>w \<in> set (enum_windows e (clock (snd ?res))).
            \<not> ow_raises w \<and> ow_visible w \<and> is_browser_class (ow_class w) \<longrightarrow>
            (clock (snd ?res),
             WindowDump (ow_hwnd w) (ow_class w) (ow_pid w) (take 30 (ow_title w)))
              \<in> set (fst ?res)"
    unfolding l by (auto simp: window_dump_def all_browser_window_def)
  show ?thesis
    using ex dump enough by (simp add: Let_def)
qed

text \<open>Two URLs, two windows found at once: both are placed and both are listed.\<close>

theorem diagnostic_dump_unconditional_witness:
  "example_urls \<noteq> [] \<and> win32gui_importable two_window_env
   \<and> (7, SetWindowPos 501 HWND_NOTOPMOST 120 75 0 0
            [SWP_SHOWWINDOW, SWP_NOZORDER, SWP_NOACTIVATE, SWP_NOSIZE])
        \<in> set (fst (open_urls_in_tabs two_window_env 1 example_urls (default_sys chrome_path)))
   \<and> (7, WindowDump 501 ''Chrome_WidgetWin_1'' 1001 ''New Tab - Google Chrome'')
        \<in> set (fst (open_urls_in_tabs two_window_env 1 example_urls (default_sys chrome_path)))"
proof -
  let ?res = "open_urls_in_tabs two_window_env 1 example_urls (default_sys chrome_path)"
  have full: "fst ?res =
      [(0, Spawn ''https://a.example'' 1000), (0, Sleep 3.5),
       (3.5, Spawn ''https://b.example'' 1000), (3.5, Sleep 3.5),
       (7, EnumWindowsCall), (7, LocateAttempt 1 2 2),
       (7, SetWindowPos 500 HWND_NOTOPMOST 0 0 0 0
             [SWP_SHOWWINDOW, SWP_NOZORDER, SWP_NOACTIVATE, SWP_NOSIZE]),
       (7, SetWindowPos 501 HWND_NOTOPMOST 120 75 0 0
             [SWP_SHOWWINDOW, SWP_NOZORDER, SWP_NOACTIVATE, SWP_NOSIZE]),
       (7, EnumWindowsCall),
       (7, WindowDump 500 ''Chrome_WidgetWin_1'' 1000 ''New Tab - Google Chrome''),
       (7, WindowDump 501 ''Chrome_WidgetWin_1'' 1001 ''New Tab - Google Chrome'')]"
    by code_simp
  have clk: "clock (snd ?res) = 7"
    by code_simp
  have a: "example_urls \<noteq> []" by (simp add: example_urls_def)
  have b: "win32gui_importable two_window_env" by (simp add: two_window_env_def static_env_def)
  have c: "\<forall>t. (t, LayoutFailed) \<notin> set (fst ?res)" unfolding full by simp
  have w: "browser_window 501 1001 \<in> set (enum_windows two_window_env (clock (snd ?res)))"
    by (simp add: two_window_env_def static_env_def)
  have wp: "\<not> ow_raises (browser_window 501 1001) \<and> ow_visible (browser_window 501 1001)
            \<and> is_browser_class (ow_class (browser_window 501 1001))"
    by code_simp
  have tk: "take 30 (ow_title (browser_window 501 1001)) = ''New Tab - Google Chrome''"
       "ow_hwnd (browser_window 501 1001) = 501" "ow_pid (browser_window 501 1001) = 1001"
       "ow_class (browser_window 501 1001) = ''Chrome_WidgetWin_1''"
    by (simp_all add: browser_window_def)
  from diagnostic_dump_unconditional [OF a b c] w wp
  have "(clock (snd ?res),
         WindowDump (ow_hwnd (browser_window 501 1001)) (ow_class (browser_window 501 1001))
           (ow_pid (browser_window 501 1001)) (take 30 (ow_title (browser_window 501 1001))))
        \<in> set (fst ?res)"
    by blast
  then have d: "(7, WindowDump 501 ''Chrome_WidgetWin_1'' 1001 ''New Tab - Google Chrome'')
        \<in> set (fst ?res)"
    unfolding tk clk .
  have e: "(7, SetWindowPos 501 HWND_NOTOPMOST 120 75 0 0
            [SWP_SHOWWINDOW, SWP_NOZORDER, SWP_NOACTIVATE, SWP_NOSIZE]) \<in> set (fst ?res)"
    unfolding full by simp
  show ?thesis using a b d e by blast
qed

section \<open>Scheduled restart timer\<close>

lemma fires_Nil: "fires [] = []"
  by (simp add: fires_def)

lemma fires_append: "fires (l @ l') = fires l @ fires l'"
  by (simp add: fires_def)

lemma fires_Cons:
  "fires (x # l) =
     (if snd x = ForceRestartRequested ScheduledRestart then fst x # fires l else fires l)"
  by (simp add: fires_def)

lemma fires_requests: "fires (requests l) = fires l"
proof -
  have "filter (\<lambda>x. snd x = ForceRestartRequested ScheduledRestart)
          (filter (\<lambda>x. is_request (snd x)) l) =
        filter (\<lambda>x. snd x = ForceRestartRequested ScheduledRestart) l"
    by (induction l) auto
  then show ?thesis by (simp add: fires_def requests_def)
qed

lemma force_restart_fires: "fires (fst (force_restart e ScheduledRestart s)) = [clock s]"
proof -
  have "fires (requests (fst (force_restart e ScheduledRestart s))) = [clock s]"
    unfolding force_restart_requests by (simp add: fires_def)
  then show ?thesis by (simp add: fires_requests)
qed

lemma sleep_fires: "fires (fst (sleep d s)) = []"
  by (simp add: sleep_def fires_def)

lemma datetime_add_in_range:
  assumes "0 < seconds"
    and "0 \<le> clock_origin e + t"
    and "clock_origin e + t + real_of_int seconds < DATETIME_RANGE"
  shows "datetime_add e t seconds = Some (t + real_of_int seconds)"
proof -
  have "real_of_int seconds < real_of_int (3652059 * 86400)"
    using assms(2,3) by (simp add: DATETIME_RANGE_def)
  then have "seconds < 3652059 * 86400"
    by (simp only: of_int_less_iff)
  then have "seconds div 86400 < 3652059"
    by simp
  moreover have "0 \<le> seconds div 86400"
    using assms(1) by simp
  ultimately have "\<not> \<bar>seconds div 86400\<bar> > MAX_DELTA_DAYS"
    by (simp add: MAX_DELTA_DAYS_def)
  moreover have "\<not> clock_origin e + (t + real_of_int seconds) < 0"
    using assms(1,2) by simp
  moreover have "\<not> DATETIME_RANGE \<le> clock_origin e + (t + real_of_int seconds)"
    using assms(3) by simp
  ultimately show ?thesis
    by (simp add: datetime_add_def)
qed

lemma datetime_add_out_of_range:
  assumes "DATETIME_RANGE \<le> clock_origin e + t + real_of_int seconds"
  shows "datetime_add e t seconds = None"
  using assms by (simp add: datetime_add_def add.assoc)

lemma datetime_add_value:
  "datetime_add e t seconds = Some r \<Longrightarrow> r = t + real_of_int seconds"
  by (simp add: datetime_add_def split: if_splits)

lemma scheduled_loop_fires_lower:
  "\<forall>t \<in> set (fires (fst (scheduled_loop e n nr s))). clock s \<le> t"
proof (induction n arbitrary: nr s)
  case 0
  then show ?case by (simp add: fires_Nil)
next
  case (Suc n)
  let ?s1 = "snd (force_restart e ScheduledRestart s)"
  let ?s2 = "snd (sleep SCHEDULE_CHECK_INTERVAL ?s1)"
  let ?w = "snd (sleep SCHEDULE_CHECK_INTERVAL s)"
  have c2: "clock s \<le> clock ?s2"
    using force_restart_clock [of s e ScheduledRestart]
    by (simp add: sleep_def STOP_DELAY_def SCHEDULE_CHECK_INTERVAL_def)
  have cw: "clock s \<le> clock ?w"
    by (simp add: sleep_def SCHEDULE_CHECK_INTERVAL_def)
  have a: "\<forall>t \<in> set (fires (fst (scheduled_loop e n nr' ?s2))). clock s \<le> t" for nr'
    using Suc.IH [of nr' ?s2] c2 by auto
  have b: "\<forall>t \<in> set (fires (fst (scheduled_loop e n nr ?w))). clock s \<le> t"
    using Suc.IH [of nr ?w] cw by auto
  show ?case
    using a b
    by (simp add: split_beta fires_Nil fires_Cons fires_append force_restart_fires sleep_fires
        split: option.splits)
qed

lemma scheduled_loop_wait:
  assumes "is_running s"
    and "\<forall>i<k. clock s + 60 * real i < nr"
  shows "fires (fst (scheduled_loop e (k + m) nr s)) =
           fires (fst (scheduled_loop e m nr (s\<lparr>clock := clock s + 60 * real k\<rparr>)))
         \<and> fst (snd (scheduled_loop e (k + m) nr s)) =
           fst (snd (scheduled_loop e m nr (s\<lparr>clock := clock s + 60 * real k\<rparr>)))"
  using assms
proof (induction k arbitrary: s)
  case 0
  then show ?case by simp
next
  case (Suc k)
  let ?w = "s\<lparr>clock := clock s + 60\<rparr>"
  have now: "\<not> nr \<le> clock s"
    using Suc.prems(2) [rule_format, of 0] by simp
  have sh: "clock ?w + 60 * real i = clock s + 60 * real (Suc i)" for i
    by (simp add: algebra_simps)
  have r: "is_running ?w" using Suc.prems(1) by simp
  have b: "\<forall>i<k. clock ?w + 60 * real i < nr"
    using Suc.prems(2) unfolding sh by auto
  have ih: "fires (fst (scheduled_loop e (k + m) nr ?w)) =
           fires (fst (scheduled_loop e m nr (?w\<lparr>clock := clock ?w + 60 * real k\<rparr>)))
         \<and> fst (snd (scheduled_loop e (k + m) nr ?w)) =
           fst (snd (scheduled_loop e m nr (?w\<lparr>clock := clock ?w + 60 * real k\<rparr>)))"
    by (rule Suc.IH [OF r b])
  have st: "?w\<lparr>clock := clock ?w + 60 * real k\<rparr> = s\<lparr>clock := clock s + 60 * real (Suc k)\<rparr>"
    by (simp add: algebra_simps)
  show ?case
    using ih now Suc.prems(1) unfolding st
    by (simp add: split_beta sleep_def SCHEDULE_CHECK_INTERVAL_def fires_append fires_Cons
        fires_Nil)
qed

lemma scheduled_loop_fire:
  assumes "is_running s" and "nr \<le> clock s"
  shows "\<exists>rest. fires (fst (scheduled_loop e (Suc m) nr s)) = clock s # rest
           \<and> (\<forall>t \<in> set rest. clock s + STOP_DELAY + SCHEDULE_CHECK_INTERVAL \<le> t)"
proof -
  let ?s1 = "snd (force_restart e ScheduledRestart s)"
  let ?s2 = "snd (sleep SCHEDULE_CHECK_INTERVAL ?s1)"
  have c2: "clock s + STOP_DELAY + SCHEDULE_CHECK_INTERVAL \<le> clock ?s2"
    using force_restart_clock [of s e ScheduledRestart] by (simp add: sleep_def)
  show ?thesis
  proof (cases "datetime_add e (clock ?s1) (restart_seconds ?s1)")
    case None
    then have "fires (fst (scheduled_loop e (Suc m) nr s)) = clock s # []"
      using assms
      by (simp add: split_beta fires_Cons fires_append force_restart_fires fires_Nil)
    then show ?thesis by auto
  next
    case (Some nr')
    let ?rest = "fires (fst (scheduled_loop e m nr' ?s2))"
    have "\<forall>t \<in> set ?rest. clock ?s2 \<le> t"
      by (rule scheduled_loop_fires_lower)
    then have low: "\<forall>t \<in> set ?rest. clock s + STOP_DELAY + SCHEDULE_CHECK_INTERVAL \<le> t"
      using c2 by auto
    have "fires (fst (scheduled_loop e (Suc m) nr s)) = clock s # ?rest"
      using assms Some
      by (simp add: split_beta fires_Cons fires_append force_restart_fires sleep_fires)
    with low show ?thesis by blast
  qed
qed

lemma scheduled_loop_next_deadline:
  assumes "is_running s" and "nr \<le> clock s"
  shows "fst (snd (scheduled_loop e (Suc 0) nr s)) =
           (case datetime_add e (clock (snd (force_restart e ScheduledRestart s)))
                   (restart_seconds s) of
              None \<Rightarrow> Inl OverflowError
            | Some t \<Rightarrow> Inr t)"
proof -
  have "restart_seconds (snd (force_restart e ScheduledRestart s)) = restart_seconds s"
    using force_restart_evolves [of s e ScheduledRestart] by (simp add: evolves_def)
  then show ?thesis using assms by (simp add: split_beta split: option.splits)
qed

text \<open>
  Claim C5, as stated, fails. The fleet is started at time 0 with a restart interval of
  61 seconds; launching the single window takes 7 seconds, so the timer loop starts at
  7 with the deadline 68, polls at 7, 67 and 127, and the only scheduled restart fires at
  127, which is outside the window from 61 to 121 counted from the fleet start. (The three
  iterations observed end at time 209.)
\<close>

theorem scheduled_restart_after_window_counterexample:
  "last_start_time (snd (start_all_browsers one_window_env
                           (odd_interval_sys\<lparr>is_running := True\<rparr>))) = Some 0
   \<and> restart_seconds odd_interval_sys = 61
   \<and> fires (fst (run_scheduled one_window_env 3 odd_interval_sys)) = [127]
   \<and> clock (snd (snd (run_scheduled one_window_env 3 odd_interval_sys))) = 209
   \<and> \<not> (127 < 0 + real_of_int (restart_seconds odd_interval_sys) + SCHEDULE_CHECK_INTERVAL)"
  by code_simp

text \<open>
  Claim C5, amended. The timer computes its deadline once, as the time at which its
  loop starts plus the restart interval \<open>R\<close>, and polls every 60 seconds. The claim holds
  for every \<open>R > 0\<close> for which that deadline is still a date of the calendar, that is, lies
  before the end of the year 9999 (at the start of 2026, \<open>R\<close> below 251635075200 seconds).
  Then, with time advancing through the program's own sleeps only, and the loop running
  alone, the poll number \<open>k\<close> with \<open>R \<le> 60 k < R + 60\<close> is the first that is due: of all
  the scheduled restarts requested before \<open>R + 60\<close> seconds after the start of the loop
  there is exactly one, at \<open>60 k\<close> seconds after that start, which is not before \<open>R\<close>. The
  loop starts only when the initial launch has finished, so the window is counted from
  the start of the loop, not from the start of the fleet. The next deadline is computed
  from the time at which that restart has completed, not from the missed deadline: it is
  that time plus \<open>R\<close>, at least \<open>STOP_DELAY\<close> later than the time of the poll plus \<open>R\<close>; if
  it is no date of the calendar, the exception ends the timer. For an \<open>R\<close> whose first
  deadline is already beyond the calendar the timer ends at once and no scheduled restart
  is ever requested.
\<close>

theorem scheduled_restart_first_firing:
  assumes "is_running s"
    and "0 < restart_seconds s"
    and "0 \<le> clock_origin e + clock s"
    and "real_of_int (restart_seconds s) \<le> 60 * real k"
    and "60 * real k < real_of_int (restart_seconds s) + SCHEDULE_CHECK_INTERVAL"
    and "k < n"
  shows "(clock_origin e + clock s + real_of_int (restart_seconds s) < DATETIME_RANGE \<longrightarrow>
            filter (\<lambda>t. t < clock s + real_of_int (restart_seconds s) + SCHEDULE_CHECK_INTERVAL)
              (fires (fst (scheduled_restart e n s))) = [clock s + 60 * real k]
            \<and> clock s + real_of_int (restart_seconds s) \<le> clock s + 60 * real k
            \<and> fst (snd (scheduled_restart e (Suc k) s)) =
                (case datetime_add e
                        (clock (snd (force_restart e ScheduledRestart
                                       (s\<lparr>clock := clock s + 60 * real k\<rparr>))))
                        (restart_seconds s) of
                   None \<Rightarrow> Inl OverflowError
                 | Some t \<Rightarrow> Inr t)
            \<and> (\<forall>t. datetime_add e
                        (clock (snd (force_restart e ScheduledRestart
                                       (s\<lparr>clock := clock s + 60 * real k\<rparr>))))
                        (restart_seconds s) = Some t \<longrightarrow>
                   t = clock (snd (force_restart e ScheduledRestart
                                     (s\<lparr>clock := clock s + 60 * real k\<rparr>)))
                         + real_of_int (restart_seconds s)
                   \<and> clock s + 60 * real k + STOP_DELAY + real_of_int (restart_seconds s) \<le> t))
       \<and> (DATETIME_RANGE \<le> clock_origin e + clock s + real_of_int (restart_seconds s) \<longrightarrow>
            scheduled_restart e n s = ([], Inl OverflowError, s)
            \<and> fires (fst (scheduled_restart e n s)) = [])"
proof (intro conjI impI)
  assume over: "DATETIME_RANGE \<le> clock_origin e + clock s + real_of_int (restart_seconds s)"
  have "datetime_add e (clock s) (restart_seconds s) = None"
    using over by (rule datetime_add_out_of_range)
  then show "scheduled_restart e n s = ([], Inl OverflowError, s)"
    and "fires (fst (scheduled_restart e n s)) = []"
    by (simp_all add: scheduled_restart_def fires_Nil)
next
  let ?R = "real_of_int (restart_seconds s)"
  let ?nr = "clock s + ?R"
  let ?sk = "s\<lparr>clock := clock s + 60 * real k\<rparr>"
  let ?s1 = "snd (force_restart e ScheduledRestart ?sk)"
  assume inr: "clock_origin e + clock s + ?R < DATETIME_RANGE"
  have start: "datetime_add e (clock s) (restart_seconds s) = Some ?nr"
    using assms(2,3) inr by (rule datetime_add_in_range)
  have sr: "scheduled_restart e n' s = scheduled_loop e n' ?nr s" for n'
    by (simp add: scheduled_restart_def start)
  obtain m where n: "n = k + Suc m"
    using assms(6) by (auto simp: less_iff_Suc_add)
  have wait: "\<forall>i<k. clock s + 60 * real i < ?nr"
  proof (intro allI impI)
    fix i assume "i < k"
    then have "real i + 1 \<le> real k" by linarith
    then have "60 * real i + 60 \<le> 60 * real k" by simp
    with assms(5) show "clock s + 60 * real i < ?nr"
      by (simp add: SCHEDULE_CHECK_INTERVAL_def)
  qed
  have rk: "is_running ?sk" using assms(1) by simp
  have due: "?nr \<le> clock ?sk" using assms(4) by simp
  have w: "fires (fst (scheduled_loop e (k + m') ?nr s)) = fires (fst (scheduled_loop e m' ?nr ?sk))"
          "fst (snd (scheduled_loop e (k + m') ?nr s)) = fst (snd (scheduled_loop e m' ?nr ?sk))"
    for m'
    using scheduled_loop_wait [OF assms(1) wait, of e m'] by blast+
  from scheduled_loop_fire [OF rk due, of e m]
  obtain rest where rest: "fires (fst (scheduled_loop e (Suc m) ?nr ?sk)) = clock ?sk # rest"
      "\<forall>t \<in> set rest. clock ?sk + STOP_DELAY + SCHEDULE_CHECK_INTERVAL \<le> t"
    by blast
  have ck: "clock ?sk = clock s + 60 * real k" by simp
  have all: "fires (fst (scheduled_restart e n s)) = (clock s + 60 * real k) # rest"
    unfolding sr n w(1) [of "Suc m"] rest(1) ck ..
  have late: "\<forall>t \<in> set rest. \<not> t < clock s + ?R + SCHEDULE_CHECK_INTERVAL"
  proof
    fix t assume "t \<in> set rest"
    then have "clock s + 60 * real k + STOP_DELAY + SCHEDULE_CHECK_INTERVAL \<le> t"
      using rest(2) by simp
    with assms(4) show "\<not> t < clock s + ?R + SCHEDULE_CHECK_INTERVAL"
      by (simp add: STOP_DELAY_def)
  qed
  show "filter (\<lambda>t. t < clock s + ?R + SCHEDULE_CHECK_INTERVAL)
           (fires (fst (scheduled_restart e n s))) = [clock s + 60 * real k]"
    unfolding all using late assms(5) by (simp add: filter_empty_conv)
  show "clock s + ?R \<le> clock s + 60 * real k"
    using assms(4) by simp
  have sk1: "Suc k = k + Suc 0" by simp
  have rs: "restart_seconds ?sk = restart_seconds s" by simp
  show "fst (snd (scheduled_restart e (Suc k) s)) =
      (case datetime_add e (clock ?s1) (restart_seconds s) of
         None \<Rightarrow> Inl OverflowError | Some t \<Rightarrow> Inr t)"
    unfolding sr sk1 w(2) [of "Suc 0"] scheduled_loop_next_deadline [OF rk due, of e] rs ..
  have fin: "clock ?sk + STOP_DELAY \<le> clock ?s1"
    by (rule force_restart_clock)
  show "\<forall>t. datetime_add e (clock ?s1) (restart_seconds s) = Some t \<longrightarrow>
           t = clock ?s1 + ?R \<and> clock s + 60 * real k + STOP_DELAY + ?R \<le> t"
  proof (intro allI impI)
    fix t assume "datetime_add e (clock ?s1) (restart_seconds s) = Some t"
    then have "t = clock ?s1 + ?R" by (rule datetime_add_value)
    with fin show "t = clock ?s1 + ?R \<and> clock s + 60 * real k + STOP_DELAY + ?R \<le> t"
      by simp
  qed
qed

text \<open>
  The default interval of 3600 seconds, with the loop starting at time 14: the restart
  fires at the 61st poll, at time 3614. An interval of 300000000000 seconds: the timer
  ends with the exception before its first poll.
\<close>

theorem scheduled_restart_first_firing_witness:
  "is_running ((default_sys chrome_path)\<lparr>is_running := True, clock := 14\<rparr>)
   \<and> 0 < restart_seconds ((default_sys chrome_path)\<lparr>is_running := True, clock := 14\<rparr>)
   \<and> filter (\<lambda>t. t < 3674)
        (fires (fst (scheduled_restart (static_env [chrome_proc] []) 61
                       ((default_sys chrome_path)\<lparr>is_running := True, clock := 14\<rparr>))))
      = [3614]
   \<and> scheduled_restart (static_env [chrome_proc] []) 5000000001
        ((default_sys chrome_path)\<lparr>is_running := True, restart_seconds := 300000000000\<rparr>)
      = ([], Inl OverflowError,
         (default_sys chrome_path)\<lparr>is_running := True, restart_seconds := 300000000000\<rparr>)"
proof -
  let ?e = "static_env [chrome_proc] []"
  let ?s = "(default_sys chrome_path)\<lparr>is_running := True, clock := 14\<rparr>"
  let ?h = "(default_sys chrome_path)\<lparr>is_running := True, restart_seconds := 300000000000\<rparr>"
  have a: "is_running ?s" by simp
  have b: "0 < restart_seconds ?s" by (simp add: default_sys_def)
  have o: "0 \<le> clock_origin ?e + clock ?s"
    by (simp add: default_sys_def static_env_def)
  have c: "real_of_int (restart_seconds ?s) \<le> 60 * real (60::nat)"
    by (simp add: default_sys_def)
  have d: "60 * real (60::nat) < real_of_int (restart_seconds ?s) + SCHEDULE_CHECK_INTERVAL"
    by (simp add: default_sys_def SCHEDULE_CHECK_INTERVAL_def)
  have e: "(60::nat) < 61" by simp
  have r: "clock_origin ?e + clock ?s + real_of_int (restart_seconds ?s) < DATETIME_RANGE"
    by (simp add: default_sys_def static_env_def DATETIME_RANGE_def)
  have v: "clock ?s + real_of_int (restart_seconds ?s) + SCHEDULE_CHECK_INTERVAL = 3674"
          "clock ?s + 60 * real (60::nat) = 3614"
    by (simp_all add: default_sys_def SCHEDULE_CHECK_INTERVAL_def)
  from scheduled_restart_first_firing [OF a b o c d e] r
  have "filter (\<lambda>t. t < clock ?s + real_of_int (restart_seconds ?s) + SCHEDULE_CHECK_INTERVAL)
           (fires (fst (scheduled_restart ?e 61 ?s)))
        = [clock ?s + 60 * real (60::nat)]"
    by blast
  then have first: "filter (\<lambda>t. t < 3674) (fires (fst (scheduled_restart ?e 61 ?s))) = [3614]"
    unfolding v .
  have a': "is_running ?h" by simp
  have b': "0 < restart_seconds ?h" by simp
  have o': "0 \<le> clock_origin ?e + clock ?h"
    by (simp add: default_sys_def static_env_def)
  have c': "real_of_int (restart_seconds ?h) \<le> 60 * real (5000000000::nat)"
    by simp
  have d': "60 * real (5000000000::nat)
              < real_of_int (restart_seconds ?h) + SCHEDULE_CHECK_INTERVAL"
    by (simp add: SCHEDULE_CHECK_INTERVAL_def)
  have e': "(5000000000::nat) < 5000000001" by simp
  have r': "DATETIME_RANGE \<le> clock_origin ?e + clock ?h + real_of_int (restart_seconds ?h)"
    by (simp add: default_sys_def static_env_def DATETIME_RANGE_def)
  from scheduled_restart_first_firing [OF a' b' o' c' d' e'] r'
  have over: "scheduled_restart ?e 5000000001 ?h = ([], Inl OverflowError, ?h)"
    by blast
  from a b first over show ?thesis
    by (intro conjI)
qed

end
